theory Spec2Isabelle
  imports Complex_Main "HOL-Library.Extended_Nat"
begin

section \<open>SmartFolio: the finance library and the price alignment\<close>

text \<open>
  The TypeScript sources are embedded function by function. A JavaScript \<open>number\<close> is
  a \<^typ>\<open>real\<close>. Where what is proved does not depend on the rounding of IEEE-754 doubles,
  the arithmetic is exact. Where it does (the integer that \<open>calculateHealthScore\<close> rounds
  to; the sign and the bounds of a simulated value path and of its drawdowns), every
  operation is followed by the rounding \<open>f64\<close> to the nearest double, and the function
  carries the suffix \<open>_f64\<close> when an exact version stands beside it. Infinities and NaN
  are outside the model. \<open>null\<close> and \<open>undefined\<close> are the value \<open>None\<close> of an
  option type. A \<open>for\<close> loop over an index range or over an array is a \<open>fold\<close> whose
  function is the loop body and whose accumulator holds the variables the body updates.
  A \<open>Map<string, T>\<close> that is only read is a partial function; one whose insertion
  order is observed (its keys are iterated) is an association list.
\<close>

subsection \<open>Constants\<close>

definition TRADING_DAYS_PER_YEAR :: real where
  "TRADING_DAYS_PER_YEAR = 252"

definition RISK_FREE_RATE :: real where
  "RISK_FREE_RATE = 4 / 100"

definition Z_SCORE_95 :: real where
  "Z_SCORE_95 = 1645 / 1000"

subsection \<open>Double-precision rounding\<close>

text \<open>
  \<open>round_even\<close>: the nearest integer, a tie going to the even one. \<open>f64\<close>: the nearest
  number with a 53-bit significand, that is, the nearest multiple of \<open>2 ^ (e - 52)\<close>
  where \<open>2 ^ e \<le> |x| < 2 ^ (e + 1)\<close>, a tie going to the even multiple: the binary64
  rounding of a result in the normal range. The exponent is not bounded: overflow to an
  infinity and the coarser grid of the subnormal range are not modelled. \<open>MAX_VALUE\<close> is \<open>Number.MAX_VALUE\<close>, above which a
  double overflows. \<open>Math.exp\<close> is implementation-approximated in ECMAScript; \<open>js_exp\<close>
  takes it correctly rounded.
\<close>

definition round_even :: "real \<Rightarrow> int" where
  "round_even y =
     (let f = \<lfloor>y\<rfloor>; r = y - of_int f
      in if r < 1 / 2 then f else if 1 / 2 < r then f + 1 else if even f then f else f + 1)"

definition f64 :: "real \<Rightarrow> real" where
  "f64 x =
     (if x = 0 then 0
      else let e = \<lfloor>log 2 \<bar>x\<bar>\<rfloor>; u = 2 powr (of_int e - 52)
           in of_int (round_even (x / u)) * u)"

definition MAX_VALUE :: real where
  "MAX_VALUE = (2 ^ 53 - 1) * 2 ^ 971"

definition js_exp :: "real \<Rightarrow> real" where
  "js_exp x = f64 (exp x)"

subsection \<open>Basic return calculations\<close>

text \<open>
  \<open>calculateLogReturns\<close>: the early return on fewer than two prices, then the loop
  \<open>for (i = 1; i < prices.length; i++)\<close> pushing \<open>Math.log(prices[i] / prices[i - 1])\<close>
  when both prices are positive.
\<close>

definition calculateLogReturns :: "real list \<Rightarrow> real list" where
  "calculateLogReturns prices =
     (if length prices < 2 then []
      else fold (\<lambda>i returns.
                   if prices ! (i - 1) > 0 \<and> prices ! i > 0
                   then returns @ [ln (prices ! i / prices ! (i - 1))]
                   else returns)
                [1..<length prices] [])"

text \<open>\<open>mean\<close>: \<open>values.reduce((sum, v) => sum + v, 0) / values.length\<close>, and 0 on no values.\<close>

definition mean :: "real list \<Rightarrow> real" where
  "mean values =
     (if length values = 0 then 0
      else fold (\<lambda>v acc. acc + v) values 0 / real (length values))"

subsection \<open>Covariance\<close>

text \<open>
  \<open>covariance\<close>: \<open>n\<close> is the shorter length; the means are taken over
  \<open>slice(0, n)\<close>; the loop adds the products of the deviations for \<open>i < n\<close>.
\<close>

definition covariance :: "real list \<Rightarrow> real list \<Rightarrow> real" where
  "covariance returns1 returns2 =
     (let n = min (length returns1) (length returns2) in
      if n < 2 then 0
      else
        let mean1 = mean (take n returns1);
            mean2 = mean (take n returns2);
            total = fold (\<lambda>i acc. acc + (returns1 ! i - mean1) * (returns2 ! i - mean2))
                         [0..<n] 0
        in total / real (n - 1))"

text \<open>\<open>returnsMatrix.get(ticker) || []\<close>: an absent key reads as the empty series.\<close>

definition getOrEmpty :: "(string \<rightharpoonup> real list) \<Rightarrow> string \<Rightarrow> real list" where
  "getOrEmpty returnsMatrix ticker =
     (case returnsMatrix ticker of None \<Rightarrow> [] | Some returns \<Rightarrow> returns)"

text \<open>
  \<open>buildCovarianceMatrix\<close>: the matrix starts as \<open>n\<close> rows of \<open>n\<close> zeros; the two nested
  loops assign \<open>matrix[i][j]\<close>.
\<close>

definition buildCovarianceMatrix ::
  "(string \<rightharpoonup> real list) \<Rightarrow> string list \<Rightarrow> real list list" where
  "buildCovarianceMatrix returnsMatrix tickers =
     (let n = length tickers;
          matrix0 = replicate n (replicate n (0::real))
      in fold (\<lambda>i matrixI.
                 fold (\<lambda>j matrix.
                         let returns1 = getOrEmpty returnsMatrix (tickers ! i);
                             returns2 = getOrEmpty returnsMatrix (tickers ! j);
                             dailyCov = covariance returns1 returns2
                         in matrix[i := (matrix ! i)[j := dailyCov * TRADING_DAYS_PER_YEAR]])
                      [0..<n] matrixI)
              [0..<n] matrix0)"

subsection \<open>Sharpe ratio\<close>

text \<open>
  \<open>calculateSharpeRatio\<close> with its three parameters, and the call that leaves the
  third one to its default \<open>RISK_FREE_RATE\<close>.
\<close>

definition calculateSharpeRatio :: "real \<Rightarrow> real \<Rightarrow> real \<Rightarrow> real option" where
  "calculateSharpeRatio portfolioReturn portfolioVol riskFreeRate =
     (if portfolioVol = 0 then None
      else Some ((portfolioReturn - riskFreeRate) / portfolioVol))"

definition calculateSharpeRatio_default :: "real \<Rightarrow> real \<Rightarrow> real option" where
  "calculateSharpeRatio_default portfolioReturn portfolioVol =
     calculateSharpeRatio portfolioReturn portfolioVol RISK_FREE_RATE"

subsection \<open>Value path and drawdown\<close>

text \<open>
  \<open>simulatePortfolioValues\<close>: \<open>values\<close> starts as \<open>[initialValue]\<close>; the loop body
  \<open>simulateStep\<close> pushes \<open>values[values.length - 1] * (1 + simpleReturn)\<close> with
  \<open>simpleReturn = Math.exp(ret) - 1\<close>.
\<close>

definition simulateStep :: "real \<Rightarrow> real list \<Rightarrow> real list" where
  "simulateStep ret values =
     (let simpleReturn = exp ret - 1
      in values @ [values ! (length values - 1) * (1 + simpleReturn)])"

definition simulatePortfolioValues :: "real list \<Rightarrow> real \<Rightarrow> real list" where
  "simulatePortfolioValues portfolioReturns initialValue =
     fold simulateStep portfolioReturns [initialValue]"

text \<open>
  A division of two numbers never throws in JavaScript: by zero it yields an infinity or
  NaN. The model makes that visible: \<open>js_div\<close> is \<open>None\<close> when the divisor is zero, and
  a drawdown entry is \<open>None\<close> exactly when its division had a zero divisor.
\<close>

definition js_div :: "real \<Rightarrow> real \<Rightarrow> real option" where
  "js_div a b = (if b = 0 then None else Some (a / b))"

text \<open>
  \<open>calculateDrawdownSeries\<close>: the loop state is \<open>(runningMax, drawdowns)\<close>;
  \<open>runningMax\<close> starts at \<open>values[0]\<close>.
\<close>

definition drawdownStep :: "real \<Rightarrow> real \<times> real option list \<Rightarrow> real \<times> real option list" where
  "drawdownStep v st =
     (let runningMax = (if v > fst st then v else fst st);
          drawdown = map_option (\<lambda>q. q - 1) (js_div v runningMax)
      in (runningMax, snd st @ [drawdown]))"

definition calculateDrawdownSeries :: "real list \<Rightarrow> real option list" where
  "calculateDrawdownSeries values =
     (if length values = 0 then []
      else snd (fold drawdownStep values (values ! 0, [])))"

text \<open>
  The same two functions in double arithmetic: \<open>Math.exp(ret) - 1\<close>, \<open>1 + simpleReturn\<close>,
  the product, the quotient \<open>value / runningMax\<close> and the subtraction of 1 are each
  rounded. The comparison \<open>value > runningMax\<close> is exact.
\<close>

definition simulateStep_f64 :: "real \<Rightarrow> real list \<Rightarrow> real list" where
  "simulateStep_f64 ret values =
     (let simpleReturn = f64 (js_exp ret - 1)
      in values @ [f64 (values ! (length values - 1) * f64 (1 + simpleReturn))])"

definition simulatePortfolioValues_f64 :: "real list \<Rightarrow> real \<Rightarrow> real list" where
  "simulatePortfolioValues_f64 portfolioReturns initialValue =
     fold simulateStep_f64 portfolioReturns [initialValue]"

definition js_div_f64 :: "real \<Rightarrow> real \<Rightarrow> real option" where
  "js_div_f64 a b = (if b = 0 then None else Some (f64 (a / b)))"

definition drawdownStep_f64 :: "real \<Rightarrow> real \<times> real option list \<Rightarrow> real \<times> real option list" where
  "drawdownStep_f64 v st =
     (let runningMax = (if v > fst st then v else fst st);
          drawdown = map_option (\<lambda>q. f64 (q - 1)) (js_div_f64 v runningMax)
      in (runningMax, snd st @ [drawdown]))"

definition calculateDrawdownSeries_f64 :: "real list \<Rightarrow> real option list" where
  "calculateDrawdownSeries_f64 values =
     (if length values = 0 then []
      else snd (fold drawdownStep_f64 values (values ! 0, [])))"

subsection \<open>Value at risk\<close>

text \<open>
  \<open>calculateVaR95\<close> returns a \<open>number\<close>. \<open>Math.sqrt\<close> of a negative horizon is NaN in
  JavaScript, so the model is read for \<open>horizonDays \<ge> 0\<close> only.
\<close>

definition calculateVaR95 :: "real \<Rightarrow> real \<Rightarrow> real \<Rightarrow> real" where
  "calculateVaR95 portfolioVolatility portfolioValue horizonDays =
     (let dailyVol = portfolioVolatility / sqrt TRADING_DAYS_PER_YEAR;
          horizonVol = dailyVol * sqrt horizonDays
      in Z_SCORE_95 * horizonVol * portfolioValue)"

subsection \<open>Composite health score\<close>

record HealthScoreComponents =
  diversificationScore :: real
  volatilityScore :: real
  drawdownScore :: real
  sharpeScore :: real

definition calculateHealthComponents ::
  "real \<Rightarrow> real \<Rightarrow> real \<Rightarrow> real option \<Rightarrow> HealthScoreComponents" where
  "calculateHealthComponents diversification annualVolatility maxDrawdown sharpeRatio =
     (let divScore = diversification;
          volScore =
            (if annualVolatility \<le> 1 / 10 then 100
             else if annualVolatility \<ge> 5 / 10 then 0
             else 100 - ((annualVolatility - 1 / 10) / (4 / 10)) * 100);
          absDrawdown = \<bar>maxDrawdown\<bar>;
          ddScore =
            (if absDrawdown \<le> 0 then 100
             else if absDrawdown \<ge> 5 / 10 then 0
             else 100 - (absDrawdown / (5 / 10)) * 100);
          sharpe =
            (case sharpeRatio of
               None \<Rightarrow> 50
             | Some s \<Rightarrow>
                 if s < 0 then max 0 (20 + s * 20)
                 else if s \<ge> 2 then 100
                 else 40 + (s / 2) * 60)
      in \<lparr> diversificationScore = max 0 (min 100 divScore),
           volatilityScore = max 0 (min 100 volScore),
           drawdownScore = max 0 (min 100 ddScore),
           sharpeScore = max 0 (min 100 sharpe) \<rparr>)"

text \<open>\<open>Math.round\<close>: the nearest integer, a tie going up; it is exact.\<close>

definition js_round :: "real \<Rightarrow> int" where
  "js_round x = \<lfloor>x + 1 / 2\<rfloor>"

text \<open>
  \<open>calculateHealthScore\<close> in double arithmetic: the literals \<open>0.3\<close> and \<open>0.2\<close> of the
  \<open>weights\<close> object are the doubles nearest to them, each product and each sum (taken
  left to right) is rounded, and \<open>Math.max\<close>, \<open>Math.min\<close> and \<open>Math.round\<close> are exact.
\<close>

definition calculateHealthScore :: "HealthScoreComponents \<Rightarrow> int" where
  "calculateHealthScore components =
     (let diversification = f64 (3 / 10);
          volatility = f64 (2 / 10);
          drawdown = f64 (2 / 10);
          sharpe = f64 (3 / 10);
          score =
            f64 (f64 (f64 (f64 (diversification * diversificationScore components) +
                           f64 (volatility * volatilityScore components)) +
                      f64 (drawdown * drawdownScore components)) +
                 f64 (sharpe * sharpeScore components))
      in js_round (max 0 (min 100 score)))"

subsection \<open>Portfolio daily returns\<close>

text \<open>
  \<open>calculatePortfolioDailyReturns\<close>: \<open>minLength\<close> starts at \<open>Infinity\<close> (the value
  \<open>\<infinity>\<close> of \<^typ>\<open>enat\<close>) and is lowered by every ticker that has a series; a ticker
  without one is passed over (\<open>minLengthStep\<close>, the body of the first loop;
  \<open>dailyReturnStep\<close>, the body of the inner loop of the second). \<open>weights.get(ticker) || 0\<close> reads an absent weight as 0, and
  \<open>returns[i] !== undefined\<close> holds for the indices below the series' length.
\<close>

definition minLengthStep :: "(string \<rightharpoonup> real list) \<Rightarrow> string \<Rightarrow> enat \<Rightarrow> enat" where
  "minLengthStep returnsMatrix ticker minLength =
     (case returnsMatrix ticker of
        Some returns \<Rightarrow> min minLength (enat (length returns))
      | None \<Rightarrow> minLength)"

definition minLengthLoop :: "(string \<rightharpoonup> real list) \<Rightarrow> string list \<Rightarrow> enat" where
  "minLengthLoop returnsMatrix tickers = fold (minLengthStep returnsMatrix) tickers \<infinity>"

definition dailyReturnStep ::
  "(string \<rightharpoonup> real list) \<Rightarrow> (string \<rightharpoonup> real) \<Rightarrow> nat \<Rightarrow> string \<Rightarrow> real \<Rightarrow> real" where
  "dailyReturnStep returnsMatrix weights i ticker dailyReturn =
     (let returns = returnsMatrix ticker;
          weight = (case weights ticker of Some w \<Rightarrow> w | None \<Rightarrow> 0)
      in case returns of
           Some rs \<Rightarrow> if i < length rs then dailyReturn + weight * rs ! i else dailyReturn
         | None \<Rightarrow> dailyReturn)"

definition dailyReturnLoop ::
  "(string \<rightharpoonup> real list) \<Rightarrow> (string \<rightharpoonup> real) \<Rightarrow> string list \<Rightarrow> nat \<Rightarrow> real" where
  "dailyReturnLoop returnsMatrix weights tickers i =
     fold (dailyReturnStep returnsMatrix weights i) tickers 0"

definition calculatePortfolioDailyReturns ::
  "(string \<rightharpoonup> real list) \<Rightarrow> (string \<rightharpoonup> real) \<Rightarrow> string list \<Rightarrow> real list" where
  "calculatePortfolioDailyReturns returnsMatrix weights tickers =
     (let minLength = minLengthLoop returnsMatrix tickers in
      if minLength = \<infinity> \<or> minLength = 0 then []
      else fold (\<lambda>i portfolioReturns.
                   portfolioReturns @ [dailyReturnLoop returnsMatrix weights tickers i])
                [0..<the_enat minLength] [])"

subsection \<open>The metrics object of the analysis route\<close>

text \<open>
  \<open>PortfolioMetrics\<close> as declared: \<open>sharpeRatio: number | null\<close> and the optional
  \<open>var95?: number\<close> are options. (Its field \<open>diversificationScore\<close> carries a suffix here,
  the name being a field of \<open>HealthScoreComponents\<close> already.)
\<close>

record PortfolioMetrics =
  expectedAnnualReturn :: real
  annualVolatility :: real
  sharpeRatio :: "real option"
  maxDrawdown :: real
  diversificationHHI :: real
  diversificationScore_pm :: real
  topHoldingWeight :: real
  healthScore :: int
  var95 :: "real option"
  numHoldings :: nat

text \<open>
  Steps 6 to 13 of the route \<open>POST /api/analyzePortfolio\<close>, from the values computed
  before them: the Sharpe ratio, the one-day VaR, the health score, and the object that
  collects them. The route stores the number \<open>calculateVaR95\<close> returned, whatever it is.
\<close>

definition buildPortfolioMetrics ::
  "real \<Rightarrow> real \<Rightarrow> real \<Rightarrow> real \<Rightarrow> real \<Rightarrow> real \<Rightarrow> real \<Rightarrow> nat \<Rightarrow> PortfolioMetrics" where
  "buildPortfolioMetrics portfolioReturn portfolioVol maxDD hhi diversification topWeight
       portfolioValue numTickers =
     (let sharpe = calculateSharpeRatio_default portfolioReturn portfolioVol;
          var = calculateVaR95 portfolioVol portfolioValue 1;
          healthComponents = calculateHealthComponents diversification portfolioVol maxDD sharpe;
          health = calculateHealthScore healthComponents
      in \<lparr> expectedAnnualReturn = portfolioReturn,
           annualVolatility = portfolioVol,
           sharpeRatio = sharpe,
           maxDrawdown = maxDD,
           diversificationHHI = hhi,
           diversificationScore_pm = diversification,
           topHoldingWeight = topWeight,
           healthScore = health,
           var95 = Some var,
           numHoldings = numTickers \<rparr>)"

subsection \<open>Price alignment\<close>

text \<open>
  \<open>HistoricalData\<close>: a date, read through \<open>getTime()\<close> as an integer number of
  milliseconds, and the adjusted close. The input \<open>Map<string, HistoricalData[]>\<close> is an
  association list in insertion order; a JavaScript \<open>Map\<close> holds each key once, which is
  the hypothesis \<open>distinct (map fst pricesMap)\<close> of the theorems.
\<close>

record HistoricalData =
  date :: int
  adjClose :: real

record AlignedData =
  dates :: "int list"
  alignedPrices :: "(string \<times> real option list) list"

text \<open>
  The loops that fill \<open>dateMaps\<close>: \<open>dateMap.set(point.date.getTime(), point.adjClose)\<close>
  for every point of a ticker, then \<open>dateMaps.set(ticker, dateMap)\<close>.
\<close>

definition dateMapStep :: "HistoricalData \<Rightarrow> (int \<rightharpoonup> real) \<Rightarrow> (int \<rightharpoonup> real)" where
  "dateMapStep point dateMap = dateMap(date point \<mapsto> adjClose point)"

definition buildDateMap :: "HistoricalData list \<Rightarrow> (int \<rightharpoonup> real)" where
  "buildDateMap hist = fold dateMapStep hist Map.empty"

definition dateMapsStep ::
  "string \<times> HistoricalData list \<Rightarrow> (string \<rightharpoonup> (int \<rightharpoonup> real)) \<Rightarrow> (string \<rightharpoonup> (int \<rightharpoonup> real))" where
  "dateMapsStep entry dateMaps = dateMaps(fst entry \<mapsto> buildDateMap (snd entry))"

definition buildDateMaps ::
  "(string \<times> HistoricalData list) list \<Rightarrow> (string \<rightharpoonup> (int \<rightharpoonup> real))" where
  "buildDateMaps pricesMap = fold dateMapsStep pricesMap Map.empty"

text \<open>\<open>!dateMaps.get(ticker)?.has(dateTime)\<close> for some ticker clears \<open>allHave\<close>.\<close>

definition allHave :: "(string \<rightharpoonup> (int \<rightharpoonup> real)) \<Rightarrow> string list \<Rightarrow> int \<Rightarrow> bool" where
  "allHave dateMaps tickers dateTime =
     list_all (\<lambda>ticker. case dateMaps ticker of
                           None \<Rightarrow> False
                         | Some dateMap \<Rightarrow> dateMap dateTime \<noteq> None)
              tickers"

text \<open>The loop over the first ticker's points, pushing the dates every ticker has.\<close>

definition commonDatesStep ::
  "(string \<rightharpoonup> (int \<rightharpoonup> real)) \<Rightarrow> string list \<Rightarrow> HistoricalData \<Rightarrow> int list \<Rightarrow> int list" where
  "commonDatesStep dateMaps tickers point commonDates =
     (if allHave dateMaps tickers (date point) then commonDates @ [date point]
      else commonDates)"

definition commonDatesLoop ::
  "(string \<rightharpoonup> (int \<rightharpoonup> real)) \<Rightarrow> string list \<Rightarrow> HistoricalData list \<Rightarrow> int list" where
  "commonDatesLoop dateMaps tickers firstData =
     fold (commonDatesStep dateMaps tickers) firstData []"

text \<open>
  The last loop. \<open>dateMaps.get(ticker)!\<close> on an absent ticker would throw a TypeError at
  \<open>dateMap.get\<close>: the model returns \<open>None\<close> for the whole call then. \<open>dateMap.get(...)!\<close>
  on an absent date pushes \<open>undefined\<close>: the entry \<open>None\<close> of the price array.
\<close>

definition alignedStep ::
  "(string \<rightharpoonup> (int \<rightharpoonup> real)) \<Rightarrow> int list \<Rightarrow> string
     \<Rightarrow> (string \<times> real option list) list option \<Rightarrow> (string \<times> real option list) list option" where
  "alignedStep dateMaps commonDates ticker acc =
     (case acc of
        None \<Rightarrow> None
      | Some aligned \<Rightarrow>
          (case dateMaps ticker of
             None \<Rightarrow> None
           | Some dateMap \<Rightarrow> Some (aligned @ [(ticker, map dateMap commonDates)])))"

definition alignedLoop ::
  "(string \<rightharpoonup> (int \<rightharpoonup> real)) \<Rightarrow> string list \<Rightarrow> int list
     \<Rightarrow> (string \<times> real option list) list option" where
  "alignedLoop dateMaps tickers commonDates =
     fold (alignedStep dateMaps commonDates) tickers (Some [])"

text \<open>\<open>pricesMap.get(firstTicker) || []\<close>.\<close>

definition firstDataOf :: "(string \<times> HistoricalData list) list \<Rightarrow> string \<Rightarrow> HistoricalData list" where
  "firstDataOf pricesMap firstTicker =
     (case map_of pricesMap firstTicker of None \<Rightarrow> [] | Some d \<Rightarrow> d)"

text \<open>
  \<open>alignPriceData\<close>. \<open>commonDates.sort((a, b) => a.getTime() - b.getTime())\<close> sorts the
  dates ascending.
\<close>

definition alignPriceData :: "(string \<times> HistoricalData list) list \<Rightarrow> AlignedData option" where
  "alignPriceData pricesMap =
     (let tickers = map fst pricesMap in
      if length tickers = 0 then Some \<lparr> dates = [], alignedPrices = [] \<rparr>
      else
        let dateMaps = buildDateMaps pricesMap;
            firstTicker = tickers ! 0;
            firstData = firstDataOf pricesMap firstTicker;
            commonDates = sort (commonDatesLoop dateMaps tickers firstData)
        in map_option (\<lambda>aligned. \<lparr> dates = commonDates, alignedPrices = aligned \<rparr>)
                      (alignedLoop dateMaps tickers commonDates))"

subsection \<open>The sample covariance, as the specification words it\<close>

text \<open>
  The arithmetic mean of a list, and the sample covariance of two lists of the same
  length \<open>n\<close> with Bessel's correction: the sum of the products of the deviations from
  the means, divided by \<open>n - 1\<close>. The embedded \<open>covariance\<close> is compared with it.
\<close>

definition spec_mean :: "real list \<Rightarrow> real" where
  "spec_mean xs = sum_list xs / real (length xs)"

definition spec_sampleCovariance :: "real list \<Rightarrow> real list \<Rightarrow> real" where
  "spec_sampleCovariance xs ys =
     (\<Sum>k<length xs. (xs ! k - spec_mean xs) * (ys ! k - spec_mean ys)) / (real (length xs) - 1)"

subsection \<open>The weighted sum of returns, as the specification words it\<close>

text \<open>
  The weight of a ticker (0 when it has none), its return at a time index (0 when it has
  no series, or none at that index), and the lengths of the series of the listed
  tickers that have one, in list order.
\<close>

definition weightOrZero :: "(string \<rightharpoonup> real) \<Rightarrow> string \<Rightarrow> real" where
  "weightOrZero weights t = (case weights t of None \<Rightarrow> 0 | Some w \<Rightarrow> w)"

definition returnOrZero :: "(string \<rightharpoonup> real list) \<Rightarrow> string \<Rightarrow> nat \<Rightarrow> real" where
  "returnOrZero returnsMatrix t i =
     (case returnsMatrix t of
        None \<Rightarrow> 0
      | Some rs \<Rightarrow> if i < length rs then rs ! i else 0)"

definition seriesLengths :: "(string \<rightharpoonup> real list) \<Rightarrow> string list \<Rightarrow> nat list" where
  "seriesLengths returnsMatrix tickers = map length (List.map_filter returnsMatrix tickers)"

subsection \<open>The common dates, as the specification words them\<close>

text \<open>
  The input with its prices erased (each ticker with its dates only), and the dates of
  the first ticker that every ticker has, sorted ascending. The dates returned by
  \<open>alignPriceData\<close> are compared with \<open>spec_commonDates\<close> of the erased input, which does
  not see a price.
\<close>

definition dateStructure :: "(string \<times> HistoricalData list) list \<Rightarrow> (string \<times> int list) list" where
  "dateStructure pricesMap = map (\<lambda>entry. (fst entry, map date (snd entry))) pricesMap"

definition spec_commonDates :: "(string \<times> int list) list \<Rightarrow> int list" where
  "spec_commonDates ds =
     (if ds = [] then []
      else sort (filter (\<lambda>d. list_all (\<lambda>entry. d \<in> set (snd entry)) ds) (snd (hd ds))))"

section \<open>Theorems\<close>

subsection \<open>Double-precision rounding\<close>

lemma f64_zero: "f64 0 = 0"
  by (simp add: f64_def)

lemma round_even_cases: "round_even y = \<lfloor>y\<rfloor> \<or> round_even y = \<lfloor>y\<rfloor> + 1"
  by (simp add: round_even_def Let_def)

lemma round_even_of_int: "round_even (of_int n) = n"
  by (simp add: round_even_def)

lemma round_even_nonneg: "0 \<le> y \<Longrightarrow> 0 \<le> round_even y"
  using round_even_cases [of y] by (auto simp: zero_le_floor)

lemma round_even_nonpos: "y \<le> 0 \<Longrightarrow> round_even y \<le> 0"
proof (cases "y = of_int \<lfloor>y\<rfloor>")
  case True
  assume "y \<le> 0"
  then have "\<lfloor>y\<rfloor> \<le> 0" by (simp add: floor_le_iff) 
  moreover have "round_even y = \<lfloor>y\<rfloor>" using round_even_of_int [of "\<lfloor>y\<rfloor>"] True by simp
  ultimately show ?thesis by simp
next
  case False
  assume y: "y \<le> 0"
  have "of_int \<lfloor>y\<rfloor> < y" using False of_int_floor_le [of y] by linarith
  then have "of_int \<lfloor>y\<rfloor> < (0::real)" using y by linarith
  then have "\<lfloor>y\<rfloor> < 0" by simp
  then have "\<lfloor>y\<rfloor> \<le> 0" "\<lfloor>y\<rfloor> + 1 \<le> 0" by linarith+
  then show ?thesis using round_even_cases [of y] by metis
qed

lemma round_even_upper: "y \<le> of_int n \<Longrightarrow> round_even y \<le> n"
proof (cases "y = of_int n")
  case True
  then show ?thesis by (simp add: round_even_of_int)
next
  case False
  assume "y \<le> of_int n"
  then have "y < of_int n" using False by simp
  then have "\<lfloor>y\<rfloor> < n" by (simp add: floor_less_iff)
  then show ?thesis using round_even_cases [of y] by auto
qed

lemma round_even_lower: "of_int n \<le> y \<Longrightarrow> n \<le> round_even y"
proof -
  assume "of_int n \<le> y"
  then have "n \<le> \<lfloor>y\<rfloor>" by (simp add: le_floor_iff)
  then show ?thesis using round_even_cases [of y] by auto
qed

lemma expo_bounds:
  assumes "(x::real) \<noteq> 0"
  shows "2 powr of_int \<lfloor>log 2 \<bar>x\<bar>\<rfloor> \<le> \<bar>x\<bar>" "\<bar>x\<bar> < 2 powr (of_int \<lfloor>log 2 \<bar>x\<bar>\<rfloor> + 1)"
proof -
  have p: "0 < \<bar>x\<bar>" using assms by simp
  define L where "L = log 2 \<bar>x\<bar>"
  have "(of_int \<lfloor>L\<rfloor> \<le> log 2 \<bar>x\<bar>) = (2 powr of_int \<lfloor>L\<rfloor> \<le> \<bar>x\<bar>)"
    by (rule le_log_iff) (use p in simp_all)
  moreover have "of_int \<lfloor>L\<rfloor> \<le> log 2 \<bar>x\<bar>" unfolding L_def by simp
  ultimately show "2 powr of_int \<lfloor>log 2 \<bar>x\<bar>\<rfloor> \<le> \<bar>x\<bar>"
    unfolding L_def by simp
  have "(log 2 \<bar>x\<bar> < of_int \<lfloor>L\<rfloor> + 1) = (\<bar>x\<bar> < 2 powr (of_int \<lfloor>L\<rfloor> + 1))"
    by (rule log_less_iff) (use p in simp_all)
  moreover have "log 2 \<bar>x\<bar> < of_int \<lfloor>L\<rfloor> + 1" unfolding L_def by linarith
  ultimately show "\<bar>x\<bar> < 2 powr (of_int \<lfloor>log 2 \<bar>x\<bar>\<rfloor> + 1)"
    unfolding L_def by simp
qed

lemma expo_unique:
  assumes "(x::real) \<noteq> 0" "2 powr of_int e \<le> \<bar>x\<bar>" "\<bar>x\<bar> < 2 powr (of_int e + 1)"
  shows "\<lfloor>log 2 \<bar>x\<bar>\<rfloor> = e"
proof (rule floor_unique)
  have p: "0 < \<bar>x\<bar>" using assms(1) by simp
  show "of_int e \<le> log 2 \<bar>x\<bar>" using assms(2) p by (simp add: le_log_iff)
  show "log 2 \<bar>x\<bar> < of_int e + 1" using assms(3) p by (simp add: log_less_iff)
qed

lemma f64_nonneg: "0 \<le> x \<Longrightarrow> 0 \<le> f64 x"
  by (simp add: f64_def Let_def round_even_nonneg)

lemma f64_nonpos: "x \<le> 0 \<Longrightarrow> f64 x \<le> 0"
proof (cases "x = 0")
  case True
  then show ?thesis by (simp add: f64_zero)
next
  case False
  assume x: "x \<le> 0"
  define u :: real where "u = 2 powr (of_int \<lfloor>log 2 \<bar>x\<bar>\<rfloor> - 52)"
  have u: "0 < u" by (simp add: u_def)
  have "x / u \<le> 0" using x u by (simp add: divide_le_0_iff)
  then have "round_even (x / u) \<le> 0" by (rule round_even_nonpos)
  then have "of_int (round_even (x / u)) * u \<le> 0"
    using u by (simp add: mult_le_0_iff)
  then show ?thesis using False by (simp add: f64_def Let_def u_def)
qed

lemma f64_unfold:
  "x \<noteq> 0 \<Longrightarrow> u = 2 powr (of_int \<lfloor>log 2 \<bar>x\<bar>\<rfloor> - 52) \<Longrightarrow>
   f64 x = of_int (round_even (x / u)) * u"
  by (simp add: f64_def Let_def)

lemma two_powr_split: "(2::real) powr (a + 1) = 2 ^ 53 * 2 powr (a - 52)"
proof -
  have "a + 1 = 53 + (a - 52)" by simp
  then have "(2::real) powr (a + 1) = 2 powr (53 + (a - 52))" by (rule arg_cong)
  also have "\<dots> = 2 powr 53 * 2 powr (a - 52)" by (rule powr_add)
  finally show ?thesis by simp
qed

lemma f64_abs_bound:
  assumes "\<bar>x\<bar> < 2 powr of_int k"
  shows "\<bar>f64 x\<bar> \<le> 2 powr of_int k"
proof (cases "x = 0")
  case True
  then show ?thesis by (simp add: f64_zero)
next
  case False
  define e where "e = \<lfloor>log 2 \<bar>x\<bar>\<rfloor>"
  define u :: real where "u = 2 powr (of_int e - 52)"
  have u: "0 < u" by (simp add: u_def)
  have lo: "2 powr of_int e \<le> \<bar>x\<bar>" and hi: "\<bar>x\<bar> < 2 powr (of_int e + 1)"
    using expo_bounds [OF False] by (simp_all add: e_def)
  have "(2::real) powr of_int e < 2 powr of_int k" using lo assms by linarith
  then have ek: "e + 1 \<le> k" by simp
  have top: "(2::real) powr (of_int e + 1) = 2 ^ 53 * u"
    unfolding u_def by (rule two_powr_split)
  then have xu: "\<bar>x\<bar> / u < 2 ^ 53" using hi u by (simp add: pos_divide_less_eq)
  have "\<bar>x / u\<bar> = \<bar>x\<bar> / u" unfolding abs_divide abs_of_pos [OF u] ..
  then have "\<bar>x / u\<bar> < 2 ^ 53" using xu by (simp only:)
  then have "x / u < 2 ^ 53 \<and> - (x / u) < 2 ^ 53" by (simp only: abs_less_iff)
  then have b: "x / u \<le> of_int (2 ^ 53)" "of_int (- (2 ^ 53)) \<le> x / u"
    by simp_all
  have up: "round_even (x / u) \<le> 2 ^ 53" by (rule round_even_upper) (rule b(1))
  have dn: "- (2 ^ 53) \<le> round_even (x / u)" by (rule round_even_lower) (rule b(2))
  have "\<bar>round_even (x / u)\<bar> \<le> 2 ^ 53" using up dn by linarith
  then have "real_of_int \<bar>round_even (x / u)\<bar> \<le> real_of_int (2 ^ 53)"
    by (simp only: of_int_le_iff)
  then have r: "\<bar>real_of_int (round_even (x / u))\<bar> \<le> 2 ^ 53" by simp
  have "\<bar>f64 x\<bar> = \<bar>real_of_int (round_even (x / u))\<bar> * u"
    using f64_unfold [OF False, of u] u by (simp add: u_def e_def abs_mult)
  also have "\<dots> \<le> 2 ^ 53 * u" using r u by simp
  also have "\<dots> = 2 powr (of_int e + 1)" using top by simp
  also have "\<dots> \<le> 2 powr of_int k"
  proof -
    have "real_of_int e + 1 \<le> real_of_int k" using ek by linarith
    then show ?thesis by simp
  qed
  finally show ?thesis .
qed

lemma f64_eval_pos_exp:
  assumes "2 ^ n \<le> \<bar>x::real\<bar>" "\<bar>x\<bar> < 2 ^ Suc n" "n \<le> 52"
  shows "f64 x = of_int (round_even (x * 2 ^ (52 - n))) / 2 ^ (52 - n)"
proof -
  have "(0::real) < 2 ^ n" by simp
  then have "0 < \<bar>x\<bar>" using assms(1) by linarith
  then have x: "x \<noteq> 0" by simp
  have e: "\<lfloor>log 2 \<bar>x\<bar>\<rfloor> = int n"
  proof (rule expo_unique [OF x])
    show "2 powr of_int (int n) \<le> \<bar>x\<bar>" using assms(1) by (simp add: powr_realpow)
    have "real_of_int (int n) + 1 = real (Suc n)" by simp
    then have "(2::real) powr (of_int (int n) + 1) = 2 powr (real (Suc n))" by (rule arg_cong)
    also have "\<dots> = 2 ^ Suc n" by (rule powr_realpow) simp
    finally show "\<bar>x\<bar> < 2 powr (of_int (int n) + 1)" using assms(2) by simp
  qed
  define u :: real where "u = 2 powr (of_int \<lfloor>log 2 \<bar>x\<bar>\<rfloor> - 52)"
  have "real_of_int (int n) - 52 = - real (52 - n)" using assms(3) by (simp add: of_nat_diff)
  then have "u = 2 powr (- real (52 - n))" unfolding u_def e by (rule arg_cong)
  also have "\<dots> = inverse (2 powr real (52 - n))" by (rule powr_minus)
  also have "\<dots> = inverse (2 ^ (52 - n))" by (simp add: powr_realpow)
  finally have u: "u = inverse (2 ^ (52 - n))" .
  have "f64 x = of_int (round_even (x / u)) * u" by (rule f64_unfold [OF x u_def])
  then show ?thesis unfolding u by (simp add: divide_inverse)
qed

lemma f64_eval_neg_exp:
  assumes "1 / 2 ^ n \<le> \<bar>x::real\<bar>" "\<bar>x\<bar> < 2 / 2 ^ n"
  shows "f64 x = of_int (round_even (x * 2 ^ (52 + n))) / 2 ^ (52 + n)"
proof -
  have "(0::real) < 1 / 2 ^ n" by simp
  then have "0 < \<bar>x\<bar>" using assms(1) by linarith
  then have x: "x \<noteq> 0" by simp
  have p: "(2::real) powr (- real n) = 1 / 2 ^ n"
    by (simp add: powr_minus powr_realpow inverse_eq_divide)
  have e: "\<lfloor>log 2 \<bar>x\<bar>\<rfloor> = - int n"
  proof (rule expo_unique [OF x])
    show "2 powr of_int (- int n) \<le> \<bar>x\<bar>" using assms(1) p by simp
    have "(2::real) powr (1 + (- real n)) = 2 powr 1 * 2 powr (- real n)"
      by (rule powr_add)
    moreover have "real_of_int (- int n) + 1 = 1 + (- real n)" by simp
    ultimately have "(2::real) powr (of_int (- int n) + 1) = 2 * 2 powr (- real n)"
      by simp
    then show "\<bar>x\<bar> < 2 powr (of_int (- int n) + 1)" using assms(2) p by simp
  qed
  define u :: real where "u = 2 powr (of_int \<lfloor>log 2 \<bar>x\<bar>\<rfloor> - 52)"
  have "real_of_int (- int n) - 52 = - real (52 + n)" by simp
  then have "u = 2 powr (- real (52 + n))" unfolding u_def e by (rule arg_cong)
  also have "\<dots> = inverse (2 powr real (52 + n))" by (rule powr_minus)
  also have "\<dots> = inverse (2 ^ (52 + n))" by (simp only: powr_realpow [OF zero_less_numeral])
  finally have u: "u = inverse (2 ^ (52 + n))" .
  have "f64 x = of_int (round_even (x / u)) * u" by (rule f64_unfold [OF x u_def])
  then show ?thesis unfolding u by (simp add: divide_inverse)
qed

lemma f64_one: "f64 1 = 1"
  using f64_eval_pos_exp [of 0 1] by (simp add: round_even_def)

lemma f64_minus_one: "f64 (- 1) = - 1"
  using f64_eval_pos_exp [of 0 "- 1"] by (simp add: round_even_def)

lemma f64_ge_minus_one: "- 1 \<le> x \<Longrightarrow> - 1 \<le> f64 x"
proof -
  assume x: "- 1 \<le> x"
  consider "0 \<le> x" | "x = - 1" | "- 1 < x" "x < 0" using x by linarith
  then show ?thesis
  proof cases
    case 1
    then show ?thesis using f64_nonneg [of x] by linarith
  next
    case 2
    then show ?thesis by (simp add: f64_minus_one)
  next
    case 3
    then have "\<bar>x\<bar> < 2 powr of_int 0" by simp
    then have "\<bar>f64 x\<bar> \<le> 2 powr of_int 0" by (rule f64_abs_bound)
    then show ?thesis by simp
  qed
qed

lemma f64_le_one: "x \<le> 1 \<Longrightarrow> f64 x \<le> 1"
proof -
  assume x: "x \<le> 1"
  consider "x \<le> 0" | "x = 1" | "0 < x" "x < 1" using x by linarith
  then show ?thesis
  proof cases
    case 1
    then show ?thesis using f64_nonpos [of x] by linarith
  next
    case 2
    then show ?thesis by (simp add: f64_one)
  next
    case 3
    then have "\<bar>x\<bar> < 2 powr of_int 0" by simp
    then have "\<bar>f64 x\<bar> \<le> 2 powr of_int 0" by (rule f64_abs_bound)
    then show ?thesis by simp
  qed
qed

subsection \<open>Sharpe ratio and value at risk at zero volatility\<close>

text \<open>
  C3. For every portfolio return \<open>r\<close> and volatility \<open>v\<close>, \<open>calculateSharpeRatio(r, v)\<close>
  (risk-free rate left to its default) returns null exactly when \<open>v\<close> is 0, whatever \<open>r\<close>
  is, and otherwise returns \<open>(r - 0.04) / v\<close>.
\<close>

theorem calculateSharpeRatio_null_iff_zero_volatility:
  "(calculateSharpeRatio_default r v = None) = (v = 0) \<and>
   (v \<noteq> 0 \<longrightarrow> calculateSharpeRatio_default r v = Some ((r - 4 / 100) / v))"
  by (simp add: calculateSharpeRatio_default_def calculateSharpeRatio_def RISK_FREE_RATE_def)

theorem calculateSharpeRatio_null_iff_zero_volatility_witness:
  "calculateSharpeRatio_default 0 0 = None \<and>
   calculateSharpeRatio_default (1 / 10) (2 / 10) = Some (3 / 10)"
  using calculateSharpeRatio_null_iff_zero_volatility [of 0 0]
    calculateSharpeRatio_null_iff_zero_volatility [of "1 / 10" "2 / 10"]
  by simp

text \<open>
  C2, as the code has it. With portfolio volatility 0 the Sharpe ratio is null, but
  \<open>calculateVaR95(0, portfolioValue, horizonDays)\<close> is the number 0 for every portfolio
  value and every horizon \<open>\<ge> 0\<close>, and the route stores that number in the \<open>var95\<close> field:
  the field is present and holds 0.
\<close>

theorem zero_volatility_sharpe_null_var_zero:
  "0 \<le> horizonDays \<Longrightarrow>
     calculateSharpeRatio_default r 0 = None \<and>
     calculateVaR95 0 portfolioValue horizonDays = 0 \<and>
     sharpeRatio (buildPortfolioMetrics r 0 dd hhi d tw portfolioValue n) = None \<and>
     var95 (buildPortfolioMetrics r 0 dd hhi d tw portfolioValue n) = Some 0"
  by (simp add: calculateSharpeRatio_default_def calculateSharpeRatio_def calculateVaR95_def
      buildPortfolioMetrics_def Let_def)

theorem zero_volatility_sharpe_null_var_zero_witness:
  "(0::real) \<le> 5 \<and>
   calculateSharpeRatio_default (8 / 100) 0 = None \<and>
   calculateVaR95 0 25000 5 = 0 \<and>
   sharpeRatio (buildPortfolioMetrics (8 / 100) 0 0 1 0 1 25000 1) = None \<and>
   var95 (buildPortfolioMetrics (8 / 100) 0 0 1 0 1 25000 1) = Some 0"
  using zero_volatility_sharpe_null_var_zero [of 5 "8 / 100" 25000 0 1 0 1 1]
  by simp

text \<open>
  C2 as stated fails: at volatility 0, portfolio value 10000 and a one-day horizon,
  \<open>calculateVaR95\<close> yields the number 0, and the \<open>var95\<close> field of the metrics object is
  not null.
\<close>

theorem calculateVaR95_zero_volatility_not_null:
  "calculateVaR95 0 10000 1 = 0 \<and>
   var95 (buildPortfolioMetrics (5 / 100) 0 0 1 0 1 10000 1) \<noteq> None"
  by (simp add: calculateVaR95_def buildPortfolioMetrics_def Let_def)

subsection \<open>Composite health score\<close>




lemma p4a: "f64 (5404319552844595 / 18014398509481984 * 31) = 5235434566818201 / 562949953421312"
  using f64_eval_pos_exp [of 3 "5404319552844595 / 18014398509481984 * 31"]
  by (simp add: round_even_def)










subsection \<open>Log returns\<close>

lemma fold_push_filter:
  "fold (\<lambda>i acc. if P i then acc @ [f i] else acc) xs acc = acc @ map f (filter P xs)"
  by (induction xs arbitrary: acc) auto

lemma calculateLogReturns_map_filter:
  "calculateLogReturns prices =
     map (\<lambda>i. ln (prices ! i / prices ! (i - 1)))
         (filter (\<lambda>i. prices ! (i - 1) > 0 \<and> prices ! i > 0) [1..<length prices])"
  by (simp add: calculateLogReturns_def fold_push_filter)

text \<open>
  C4. On fewer than 2 prices \<open>calculateLogReturns\<close> returns the empty list. Otherwise it
  returns, in order, \<open>ln (prices[i] / prices[i-1])\<close> for the indices \<open>i = 1 .. n-1\<close> at
  which both adjacent prices are positive; its length is \<open>n - 1\<close> minus the number of
  steps at which one of the two prices is \<open>\<le> 0\<close>, and \<open>n - 1\<close> when all prices are positive.
\<close>

theorem calculateLogReturns_skips_nonpositive_steps:
  "calculateLogReturns prices =
     (if length prices < 2 then []
      else map (\<lambda>i. ln (prices ! i / prices ! (i - 1)))
               (filter (\<lambda>i. prices ! (i - 1) > 0 \<and> prices ! i > 0) [1..<length prices]))
   \<and> length (calculateLogReturns prices) =
       (length prices - 1)
         - length (filter (\<lambda>i. prices ! (i - 1) \<le> 0 \<or> prices ! i \<le> 0) [1..<length prices])
   \<and> ((\<forall>p \<in> set prices. 0 < p) \<longrightarrow> length (calculateLogReturns prices) = length prices - 1)"
proof -
  let ?P = "\<lambda>i. prices ! (i - 1) > 0 \<and> prices ! i > 0"
  let ?Q = "\<lambda>i. prices ! (i - 1) \<le> 0 \<or> prices ! i \<le> 0"
  have Q: "?Q = (\<lambda>i. \<not> ?P i)" by (auto simp: fun_eq_iff)
  have "length (filter ?P [1..<length prices]) + length (filter (\<lambda>i. \<not> ?P i) [1..<length prices])
        = length [1..<length prices]"
    by (rule sum_length_filter_compl)
  then have len: "length (calculateLogReturns prices) =
       (length prices - 1) - length (filter ?Q [1..<length prices])"
    unfolding Q by (simp add: calculateLogReturns_map_filter)
  have pos: "length (calculateLogReturns prices) = length prices - 1"
    if "\<forall>p \<in> set prices. 0 < p"
  proof -
    have "filter ?P [1..<length prices] = [1..<length prices]"
      using that by (auto simp: filter_id_conv)
    then show ?thesis by (simp add: calculateLogReturns_map_filter)
  qed
  show ?thesis using len pos by (simp add: calculateLogReturns_map_filter)
qed

theorem calculateLogReturns_skips_nonpositive_steps_witness:
  "calculateLogReturns [100, 102, 0, 105] = [ln (102 / 100)] \<and>
   length (calculateLogReturns [100, 102, 0, 105]) = 1 \<and>
   calculateLogReturns [7] = [] \<and>
   length (calculateLogReturns [100, 102, 101, 105]) = 3"
  using calculateLogReturns_skips_nonpositive_steps [of "[100, 102, 0, 105]"]
    calculateLogReturns_skips_nonpositive_steps [of "[7]"]
    calculateLogReturns_skips_nonpositive_steps [of "[100, 102, 101, 105]"]
  by (simp add: upt_rec)

subsection \<open>Value paths\<close>

lemma simulateStep_eq:
  "values \<noteq> [] \<Longrightarrow> simulateStep ret values = values @ [last values * exp ret]"
  by (simp add: simulateStep_def last_conv_nth)

lemma sorted_wrt_less_le_last:
  assumes "sorted_wrt (<) (vs::real list)" "v \<in> set vs"
  shows "v \<le> last vs"
proof -
  obtain k where k: "k < length vs" "vs ! k = v" using assms(2) by (auto simp: in_set_conv_nth)
  have ne: "vs \<noteq> []" using assms(2) by auto
  show ?thesis
  proof (cases "k = length vs - 1")
    case True
    then show ?thesis using k ne by (simp add: last_conv_nth)
  next
    case False
    then have "k < length vs - 1" using k by simp
    then have "vs ! k < vs ! (length vs - 1)"
      using sorted_wrt_nth_less [OF assms(1), of k "length vs - 1"] k by simp
    then show ?thesis using k ne by (simp add: last_conv_nth)
  qed
qed

lemma simulate_fold_increasing:
  "vs \<noteq> [] \<Longrightarrow> sorted_wrt (<) vs \<Longrightarrow> 0 < last vs \<Longrightarrow> \<forall>r \<in> set rs. 0 < r \<Longrightarrow>
   sorted_wrt (<) (fold simulateStep rs vs)"
proof (induction rs arbitrary: vs)
  case Nil
  then show ?case by simp
next
  case (Cons r rs)
  let ?new = "last vs * exp r"
  have "0 < r" using Cons.prems(4) by simp
  then have e: "1 < exp r" by simp
  have grow: "last vs < ?new" using Cons.prems(3) e by simp
  have below: "v < ?new" if "v \<in> set vs" for v
    using sorted_wrt_less_le_last [OF Cons.prems(2) that] grow by simp
  have s: "sorted_wrt (<) (vs @ [?new])"
    using Cons.prems(2) below by (simp add: sorted_wrt_append)
  have p: "0 < last (vs @ [?new])" using grow Cons.prems(3) by simp
  have "sorted_wrt (<) (fold simulateStep rs (vs @ [?new]))"
    using Cons.IH [of "vs @ [?new]"] s p Cons.prems(4) by simp
  then show ?case using Cons.prems(1) by (simp add: simulateStep_eq)
qed

lemma logReturns_positive:
  assumes "sorted_wrt (<) prices" "\<forall>p \<in> set prices. 0 < p"
  shows "\<forall>r \<in> set (calculateLogReturns prices). 0 < r"
proof
  fix r assume "r \<in> set (calculateLogReturns prices)"
  then obtain i where i: "1 \<le> i" "i < length prices" "r = ln (prices ! i / prices ! (i - 1))"
    by (auto simp: calculateLogReturns_map_filter)
  have lt: "prices ! (i - 1) < prices ! i"
    using assms(1) i by (simp add: sorted_wrt_nth_less)
  have pos: "0 < prices ! (i - 1)" using assms(2) i by simp
  then have "1 < prices ! i / prices ! (i - 1)" using lt by simp
  then show "0 < r" using i(3) by simp
qed

text \<open>
  C7. For every strictly increasing list of positive prices and every positive initial
  value, the value path \<open>simulatePortfolioValues (calculateLogReturns prices) initialValue\<close>
  is increasing: strictly, and hence also in the weak sense. (Exact arithmetic: no
  tolerance is needed.)
\<close>

theorem simulate_of_logReturns_increasing:
  "sorted_wrt (<) prices \<Longrightarrow> \<forall>p \<in> set prices. 0 < p \<Longrightarrow> 0 < initialValue \<Longrightarrow>
   sorted_wrt (<) (simulatePortfolioValues (calculateLogReturns prices) initialValue) \<and>
   sorted (simulatePortfolioValues (calculateLogReturns prices) initialValue)"
proof -
  assume a: "sorted_wrt (<) prices" "\<forall>p \<in> set prices. 0 < p" "0 < initialValue"
  have s: "sorted_wrt (<) (simulatePortfolioValues (calculateLogReturns prices) initialValue)"
    unfolding simulatePortfolioValues_def
    using simulate_fold_increasing [of "[initialValue]" "calculateLogReturns prices"]
      logReturns_positive [OF a(1,2)] a(3) by simp
  then have "sorted (simulatePortfolioValues (calculateLogReturns prices) initialValue)"
    by (simp add: strict_sorted_iff)
  then show ?thesis using s by simp
qed

theorem simulate_of_logReturns_increasing_witness:
  "sorted_wrt (<) [100, 102, 105 :: real] \<and> 0 < (1::real) \<and>
   sorted_wrt (<) (simulatePortfolioValues (calculateLogReturns [100, 102, 105]) 1) \<and>
   sorted (simulatePortfolioValues (calculateLogReturns [100, 102, 105]) 1)"
  using simulate_of_logReturns_increasing [of "[100, 102, 105]" 1] by simp

subsection \<open>Drawdown series\<close>

lemma max_as_update: "max x (M::real) = (if x > M then x else M)"
  by (simp add: max_def)

lemma drawdown_fold:
  "fold drawdownStep xs (m, acc) =
     (Max (insert m (set xs)),
      acc @ map (\<lambda>k. map_option (\<lambda>q. q - 1)
                        (js_div (xs ! k) (Max (insert m (set (take (Suc k) xs))))))
                [0..<length xs])"
proof (induction xs rule: rev_induct)
  case Nil
  then show ?case by simp
next
  case (snoc x xs)
  define M where "M = Max (insert m (set xs))"
  define M' where "M' = Max (insert m (set (xs @ [x])))"
  let ?g = "\<lambda>ys k. map_option (\<lambda>q. q - 1) (js_div (ys ! k) (Max (insert m (set (take (Suc k) ys)))))"
  have i: "insert m (set (xs @ [x])) = insert x (insert m (set xs))" by auto
  have "Max (insert x (insert m (set xs))) = max x (Max (insert m (set xs)))"
    by (rule Max_insert) auto
  then have M': "M' = (if x > M then x else M)"
    unfolding M'_def M_def i max_as_update .
  have old: "map (?g (xs @ [x])) [0..<length xs] = map (?g xs) [0..<length xs]"
    by (rule map_cong) (simp_all add: nth_append)
  have new: "?g (xs @ [x]) (length xs) = map_option (\<lambda>q. q - 1) (js_div x M')"
    by (simp add: M'_def)
  have IH: "fold drawdownStep xs (m, acc) = (M, acc @ map (?g xs) [0..<length xs])"
    using snoc.IH by (simp add: M_def)
  have "fold drawdownStep (xs @ [x]) (m, acc) = drawdownStep x (M, acc @ map (?g xs) [0..<length xs])"
    using IH by simp
  also have "\<dots> = (M', acc @ map (?g xs) [0..<length xs] @ [map_option (\<lambda>q. q - 1) (js_div x M')])"
    by (simp add: drawdownStep_def Let_def M')
  also have "\<dots> = (M', acc @ map (?g (xs @ [x])) [0..<length (xs @ [x])])"
    using old new by simp
  finally show ?case by (simp add: M'_def)
qed

lemma calculateDrawdownSeries_length:
  "length (calculateDrawdownSeries vs) = length vs"
  by (simp add: calculateDrawdownSeries_def drawdown_fold)

lemma calculateDrawdownSeries_nth:
  assumes "k < length vs"
  shows "calculateDrawdownSeries vs ! k =
     map_option (\<lambda>q. q - 1) (js_div (vs ! k) (Max (set (take (Suc k) vs))))"
proof -
  have ne: "vs \<noteq> []" using assms by auto
  have "vs ! 0 \<in> set (take (Suc k) vs)"
    using ne by (cases vs) simp_all
  then have "insert (vs ! 0) (set (take (Suc k) vs)) = set (take (Suc k) vs)"
    by auto
  then have "Max (insert (vs ! 0) (set (take (Suc k) vs))) = Max (set (take (Suc k) vs))"
    by (rule arg_cong)
  then show ?thesis using assms ne
    by (simp add: calculateDrawdownSeries_def drawdown_fold del: Max_insert)
qed

lemma running_max_props:
  assumes "k < length vs" "\<forall>v \<in> set vs. (0::real) < v"
  shows "vs ! k \<le> Max (set (take (Suc k) vs))" "0 < Max (set (take (Suc k) vs))"
proof -
  have mem: "vs ! k \<in> set (take (Suc k) vs)"
    using assms(1) by (auto simp: in_set_conv_nth intro!: exI [of _ k])
  show le: "vs ! k \<le> Max (set (take (Suc k) vs))"
    using mem by simp
  have "0 < vs ! k" using assms by simp
  then show "0 < Max (set (take (Suc k) vs))" using le by linarith
qed

lemma drawdown_entry_positive:
  assumes "k < length vs" "\<forall>v \<in> set vs. 0 < v"
  shows "\<exists>d. calculateDrawdownSeries vs ! k = Some d \<and> - 1 < d \<and> d \<le> 0 \<and>
             ((d = 0) = (vs ! k = Max (set (take (Suc k) vs))))"
proof -
  define M where "M = Max (set (take (Suc k) vs))"
  define d where "d = vs ! k / M - 1"
  have le: "vs ! k \<le> M" and pos: "0 < M"
    using running_max_props [OF assms] by (simp_all add: M_def)
  have v: "0 < vs ! k" using assms by simp
  have e: "calculateDrawdownSeries vs ! k = Some d"
    using pos by (simp add: calculateDrawdownSeries_nth [OF assms(1)] js_div_def d_def M_def)
  have "0 < vs ! k / M" using v pos by simp
  then have lo: "- 1 < d" by (simp add: d_def)
  have "vs ! k / M \<le> 1" using le pos by simp
  then have hi: "d \<le> 0" by (simp add: d_def)
  have z: "(d = 0) = (vs ! k = M)" using pos by (simp add: d_def field_simps)
  show ?thesis using e lo hi z unfolding M_def by blast
qed

lemma running_max_attained_iff:
  assumes "k < length (vs::real list)"
  shows "(vs ! k = Max (set (take (Suc k) vs))) = (\<forall>j \<le> k. vs ! j \<le> vs ! k)"
proof -
  have mem: "vs ! k \<in> set (take (Suc k) vs)"
    using assms by (auto simp: in_set_conv_nth intro!: exI [of _ k])
  have S: "set (take (Suc k) vs) = {vs ! j | j. j \<le> k}"
  proof -
    have "set (take (Suc k) vs) = {take (Suc k) vs ! j | j. j < Suc k}"
      using assms by (simp add: set_conv_nth min_absorb2 Suc_leI)
    also have "\<dots> = {vs ! j | j. j \<le> k}"
      by (auto simp: less_Suc_eq_le) (metis le_imp_less_Suc nth_take)+
    finally show ?thesis .
  qed
  show ?thesis
  proof
    assume e: "vs ! k = Max (set (take (Suc k) vs))"
    show "\<forall>j \<le> k. vs ! j \<le> vs ! k"
    proof (intro allI impI)
      fix j assume "j \<le> k"
      then have "vs ! j \<in> set (take (Suc k) vs)" unfolding S by blast
      then have "vs ! j \<le> Max (set (take (Suc k) vs))" by simp
      then show "vs ! j \<le> vs ! k" using e by simp
    qed
  next
    assume a: "\<forall>j \<le> k. vs ! j \<le> vs ! k"
    have "Max (set (take (Suc k) vs)) = vs ! k"
    proof (rule Max_eqI)
      show "finite (set (take (Suc k) vs))" by simp
      show "y \<le> vs ! k" if "y \<in> set (take (Suc k) vs)" for y
        using that a unfolding S by blast
      show "vs ! k \<in> set (take (Suc k) vs)" by (rule mem)
    qed
    then show "vs ! k = Max (set (take (Suc k) vs))" by simp
  qed
qed

text \<open>
  C6, as the code has it. For every non-empty list of strictly positive values,
  \<open>calculateDrawdownSeries\<close> returns a list of the same length; every entry is a number
  (no division by zero) that is \<open>\<le> 0\<close>; the entry at index \<open>k\<close> is 0 exactly when
  \<open>values[k]\<close> equals the running maximum there (the largest of \<open>values[0..k]\<close>: no
  value up to \<open>k\<close> exceeds it), be it a new high or a return to the previous one; in
  particular it is 0 at every new high.
\<close>

theorem calculateDrawdownSeries_nonpositive_zero_at_running_max:
  "vs \<noteq> [] \<Longrightarrow> \<forall>v \<in> set vs. 0 < v \<Longrightarrow>
   length (calculateDrawdownSeries vs) = length vs \<and>
   (\<forall>k < length vs. \<exists>d. calculateDrawdownSeries vs ! k = Some d \<and> d \<le> 0 \<and>
        ((d = 0) = (vs ! k = Max (set (take (Suc k) vs)))) \<and>
        ((d = 0) = (\<forall>j \<le> k. vs ! j \<le> vs ! k)) \<and>
        ((\<forall>j < k. vs ! j < vs ! k) \<longrightarrow> d = 0))"
proof -
  assume a: "vs \<noteq> []" "\<forall>v \<in> set vs. 0 < v"
  have "\<exists>d. calculateDrawdownSeries vs ! k = Some d \<and> d \<le> 0 \<and>
        ((d = 0) = (vs ! k = Max (set (take (Suc k) vs)))) \<and>
        ((d = 0) = (\<forall>j \<le> k. vs ! j \<le> vs ! k)) \<and>
        ((\<forall>j < k. vs ! j < vs ! k) \<longrightarrow> d = 0)" if k: "k < length vs" for k
  proof -
    obtain d where d: "calculateDrawdownSeries vs ! k = Some d" "d \<le> 0"
        "(d = 0) = (vs ! k = Max (set (take (Suc k) vs)))"
      using drawdown_entry_positive [OF k a(2)] by blast
    have e: "(d = 0) = (\<forall>j \<le> k. vs ! j \<le> vs ! k)"
      using d(3) running_max_attained_iff [OF k] by simp
    have n: "d = 0" if s: "\<forall>j < k. vs ! j < vs ! k"
    proof -
      have "vs ! j \<le> vs ! k" if "j \<le> k" for j
        using that s by (cases "j = k") (simp_all add: less_imp_le)
      then show ?thesis using e by simp
    qed
    show ?thesis using d e n by blast
  qed
  then show ?thesis by (simp add: calculateDrawdownSeries_length)
qed

theorem calculateDrawdownSeries_nonpositive_zero_at_running_max_witness:
  "[1, 11 / 10, 9 / 10, 12 / 10] \<noteq> ([] :: real list) \<and>
   length (calculateDrawdownSeries [1, 11 / 10, 9 / 10, 12 / 10]) = 4 \<and>
   (\<exists>d. calculateDrawdownSeries [1, 11 / 10, 9 / 10, 12 / 10] ! 2 = Some d \<and> d < 0) \<and>
   (\<exists>d. calculateDrawdownSeries [1, 11 / 10, 9 / 10, 12 / 10] ! 3 = Some d \<and> d = 0)"
proof -
  let ?vs = "[1, 11 / 10, 9 / 10, 12 / 10] :: real list"
  have pos: "\<forall>v \<in> set ?vs. 0 < v" by simp
  have ne: "?vs \<noteq> []" by simp
  note t = calculateDrawdownSeries_nonpositive_zero_at_running_max [OF ne pos]
  have len: "length (calculateDrawdownSeries ?vs) = 4" using t by simp
  have all: "\<forall>k < length ?vs. \<exists>d. calculateDrawdownSeries ?vs ! k = Some d \<and> d \<le> 0 \<and>
        ((d = 0) = (?vs ! k = Max (set (take (Suc k) ?vs))))" using t by blast
  have t2: "\<exists>d. calculateDrawdownSeries ?vs ! 2 = Some d \<and> d \<le> 0 \<and>
        ((d = 0) = (?vs ! 2 = Max (set (take (Suc 2) ?vs))))"
    using all [rule_format, of 2] by simp
  have t3: "\<exists>d. calculateDrawdownSeries ?vs ! 3 = Some d \<and> d \<le> 0 \<and>
        ((d = 0) = (?vs ! 3 = Max (set (take (Suc 3) ?vs))))"
    using all [rule_format, of 3] by simp
  have m2: "?vs ! 2 \<noteq> Max (set (take (Suc 2) ?vs))" by simp
  have m3: "?vs ! 3 = Max (set (take (Suc 3) ?vs))" by simp
  from t2 m2 have r2: "\<exists>d. calculateDrawdownSeries ?vs ! 2 = Some d \<and> d < 0"
    by (metis less_eq_real_def)
  from t3 m3 have r3: "\<exists>d. calculateDrawdownSeries ?vs ! 3 = Some d \<and> d = 0"
    by metis
  show ?thesis using ne len r2 r3 by blast
qed

text \<open>
  C6 as stated fails where it says the entry is 0 only at a new running maximum: in
  \<open>[2, 1, 2]\<close> the value at index 2 is not greater than the running maximum 2 that the
  loop holds before it (\<open>value > runningMax\<close> is false, no new high), and its entry is 0.
\<close>

theorem calculateDrawdownSeries_zero_without_new_high:
  "calculateDrawdownSeries [2, 1, 2] = [Some 0, Some (- 1 / 2), Some 0] \<and>
   fst (fold drawdownStep (take 2 [2, 1, 2]) ([2, 1, 2] ! 0, [])) = 2 \<and>
   \<not> ([2, 1, 2] ! 2 > fst (fold drawdownStep (take 2 [2, 1, 2]) ([2, 1, 2] ! 0, [])))"
  by (simp add: calculateDrawdownSeries_def drawdownStep_def js_div_def)

subsection \<open>Drawdown of a simulated value path\<close>

lemma js_exp_nonneg: "0 \<le> js_exp r"
  by (simp add: js_exp_def f64_nonneg)

lemma simulateStep_f64_eq:
  "vs \<noteq> [] \<Longrightarrow>
   simulateStep_f64 ret vs = vs @ [f64 (last vs * f64 (1 + f64 (js_exp ret - 1)))]"
  by (simp add: simulateStep_f64_def last_conv_nth)

lemma simulateStep_f64_nonneg:
  assumes "vs \<noteq> []" "\<forall>v \<in> set vs. 0 \<le> v"
  shows "\<forall>v \<in> set (simulateStep_f64 ret vs). 0 \<le> v"
proof -
  have "- 1 \<le> js_exp ret - 1" using js_exp_nonneg [of ret] by simp
  then have "- 1 \<le> f64 (js_exp ret - 1)" by (rule f64_ge_minus_one)
  then have "0 \<le> f64 (1 + f64 (js_exp ret - 1))" by (simp add: f64_nonneg)
  moreover have "0 \<le> last vs" using assms by simp
  ultimately have "0 \<le> f64 (last vs * f64 (1 + f64 (js_exp ret - 1)))"
    by (simp add: f64_nonneg)
  then show ?thesis using assms by (simp add: simulateStep_f64_eq)
qed

lemma simulate_f64_fold:
  "vs \<noteq> [] \<Longrightarrow> \<forall>v \<in> set vs. 0 \<le> v \<Longrightarrow>
   (\<forall>v \<in> set (fold simulateStep_f64 rs vs). 0 \<le> v) \<and>
   length (fold simulateStep_f64 rs vs) = length vs + length rs \<and>
   fold simulateStep_f64 rs vs ! 0 = vs ! 0"
proof (induction rs arbitrary: vs)
  case Nil
  then show ?case by simp
next
  case (Cons r rs)
  have ne: "simulateStep_f64 r vs \<noteq> []" using Cons.prems(1) by (simp add: simulateStep_f64_eq)
  have nn: "\<forall>v \<in> set (simulateStep_f64 r vs). 0 \<le> v"
    by (rule simulateStep_f64_nonneg [OF Cons.prems])
  have l: "length (simulateStep_f64 r vs) = Suc (length vs)"
    using Cons.prems(1) by (simp add: simulateStep_f64_eq)
  have h: "simulateStep_f64 r vs ! 0 = vs ! 0"
    using Cons.prems(1) by (simp add: simulateStep_f64_eq nth_append)
  show ?case using Cons.IH [OF ne nn] l h by simp
qed

lemma drawdown_f64_fold:
  "fold drawdownStep_f64 xs (m, acc) =
     (Max (insert m (set xs)),
      acc @ map (\<lambda>k. map_option (\<lambda>q. f64 (q - 1))
                        (js_div_f64 (xs ! k) (Max (insert m (set (take (Suc k) xs))))))
                [0..<length xs])"
proof (induction xs rule: rev_induct)
  case Nil
  then show ?case by simp
next
  case (snoc x xs)
  define M where "M = Max (insert m (set xs))"
  define M' where "M' = Max (insert m (set (xs @ [x])))"
  let ?g = "\<lambda>ys k. map_option (\<lambda>q. f64 (q - 1))
      (js_div_f64 (ys ! k) (Max (insert m (set (take (Suc k) ys)))))"
  have i: "insert m (set (xs @ [x])) = insert x (insert m (set xs))" by auto
  have "Max (insert x (insert m (set xs))) = max x (Max (insert m (set xs)))"
    by (rule Max_insert) auto
  then have M': "M' = (if x > M then x else M)"
    unfolding M'_def M_def i max_as_update .
  have old: "map (?g (xs @ [x])) [0..<length xs] = map (?g xs) [0..<length xs]"
    by (rule map_cong) (simp_all add: nth_append)
  have new: "?g (xs @ [x]) (length xs) = map_option (\<lambda>q. f64 (q - 1)) (js_div_f64 x M')"
    by (simp add: M'_def)
  have IH: "fold drawdownStep_f64 xs (m, acc) = (M, acc @ map (?g xs) [0..<length xs])"
    using snoc.IH by (simp add: M_def)
  have "fold drawdownStep_f64 (xs @ [x]) (m, acc)
        = drawdownStep_f64 x (M, acc @ map (?g xs) [0..<length xs])"
    using IH by simp
  also have "\<dots> = (M', acc @ map (?g xs) [0..<length xs]
                         @ [map_option (\<lambda>q. f64 (q - 1)) (js_div_f64 x M')])"
    by (simp add: drawdownStep_f64_def Let_def M')
  also have "\<dots> = (M', acc @ map (?g (xs @ [x])) [0..<length (xs @ [x])])"
    using old new by simp
  finally show ?case by (simp add: M'_def)
qed

lemma drawdown_f64_entry:
  assumes "k < length vs" "0 < vs ! 0" "\<forall>v \<in> set vs. 0 \<le> v"
  shows "\<exists>d. calculateDrawdownSeries_f64 vs ! k = Some d \<and> - 1 \<le> d \<and> d \<le> 0"
proof -
  define M where "M = Max (insert (vs ! 0) (set (take (Suc k) vs)))"
  have "vs ! 0 \<le> M" unfolding M_def by simp
  then have M: "0 < M" using assms(2) by linarith
  have "vs ! k \<in> set (take (Suc k) vs)"
    using assms(1) by (auto simp: in_set_conv_nth intro!: exI [of _ k])
  then have le: "vs ! k \<le> M" unfolding M_def by simp
  have nn: "0 \<le> vs ! k" using assms(1,3) by simp
  have q0: "0 \<le> vs ! k / M" using nn M by simp
  have q1: "vs ! k / M \<le> 1" using le M by simp
  have f0: "0 \<le> f64 (vs ! k / M)" using q0 by (rule f64_nonneg)
  have f1: "f64 (vs ! k / M) \<le> 1" using q1 by (rule f64_le_one)
  have d0: "f64 (f64 (vs ! k / M) - 1) \<le> 0" using f1 by (simp add: f64_nonpos)
  have d1: "- 1 \<le> f64 (f64 (vs ! k / M) - 1)" using f0 by (simp add: f64_ge_minus_one)
  have ne: "vs \<noteq> []" using assms(1) by auto
  have "calculateDrawdownSeries_f64 vs ! k = Some (f64 (f64 (vs ! k / M) - 1))"
    using assms(1) ne M
    by (simp add: calculateDrawdownSeries_f64_def drawdown_f64_fold js_div_f64_def M_def
        del: Max_insert)
  then show ?thesis using d0 d1 by blast
qed

lemma running_max_f64_ge_initial:
  "vs ! 0 \<le> fst (fold drawdownStep_f64 (take k vs) (vs ! 0, []))"
  by (simp add: drawdown_f64_fold del: Max_insert)

lemma exp_minus_40_small: "exp (- 40 :: real) < 1 / 2 ^ 54"
proof -
  have q: "1 + (20 / 27 :: real) + (20 / 27) ^ 2 / 2 \<le> exp (20 / 27)"
    by (rule exp_lower_Taylor_quadratic) simp
  have "(2::real) < 1 + 20 / 27 + (20 / 27) ^ 2 / 2" by (simp add: power2_eq_square)
  then have "(2::real) < exp (20 / 27)" using q by linarith
  then have "(2::real) ^ 54 < exp (20 / 27) ^ 54"
    by (rule power_strict_mono) simp_all
  also have "exp (20 / 27 :: real) ^ 54 = exp (of_nat 54 * (20 / 27))"
    by (rule exp_of_nat_mult [symmetric])
  also have "\<dots> = exp 40" by simp
  finally have "(2::real) ^ 54 < exp 40" .
  then have "inverse (exp (40::real)) < inverse (2 ^ 54)"
    by (simp only: inverse_less_iff_less [OF exp_gt_zero zero_less_power [OF zero_less_numeral]])
  then show ?thesis by (simp add: exp_minus inverse_eq_divide)
qed

lemma js_exp_minus_40: "0 \<le> js_exp (- 40)" "js_exp (- 40) \<le> 1 / 2 ^ 54"
proof -
  show "0 \<le> js_exp (- 40)" by (rule js_exp_nonneg)
  have p: "(2::real) powr of_int (- 54) = 1 / 2 ^ 54"
    by (simp add: powr_minus inverse_eq_divide)
  have "\<bar>exp (- 40 :: real)\<bar> < 2 powr of_int (- 54)"
    unfolding p using exp_minus_40_small by simp
  then have "\<bar>f64 (exp (- 40))\<bar> \<le> 2 powr of_int (- 54)" by (rule f64_abs_bound)
  then show "js_exp (- 40) \<le> 1 / 2 ^ 54" unfolding p js_exp_def by linarith
qed

lemma f64_near_minus_one:
  assumes "0 \<le> t" "t \<le> 1 / 2 ^ 54"
  shows "f64 (t - 1) = - 1"
proof (cases "t = 0")
  case True
  then show ?thesis by (simp add: f64_minus_one)
next
  case False
  then have t: "0 < t" using assms(1) by simp
  define s where "s = t * 2 ^ 53"
  have s: "0 < s" "s \<le> 1 / 2" using t assms(2) by (simp_all add: s_def)
  have a: "\<bar>t - 1\<bar> = 1 - t" using assms(2) by simp
  have e: "f64 (t - 1) = of_int (round_even ((t - 1) * 2 ^ (52 + 1))) / 2 ^ (52 + 1)"
    by (rule f64_eval_neg_exp) (use a t assms(2) in simp_all)
  have y: "(t - 1) * 2 ^ (52 + 1) = of_int (- (2 ^ 53)) + s" by (simp add: s_def algebra_simps)
  have fl: "\<lfloor>of_int (- (2 ^ 53)) + s\<rfloor> = - (2 ^ 53)"
    by (rule floor_unique) (use s in simp_all)
  have "round_even (of_int (- (2 ^ 53)) + s) = - (2 ^ 53)"
    using s(2) unfolding round_even_def fl Let_def by simp
  then show ?thesis unfolding e y by simp
qed

lemma simulate_f64_crash:
  "simulatePortfolioValues_f64 [- 40] 1 = [1, 0]"
proof -
  have "f64 (js_exp (- 40) - 1) = - 1"
    by (rule f64_near_minus_one) (rule js_exp_minus_40)+
  then show ?thesis
    by (simp add: simulatePortfolioValues_f64_def simulateStep_f64_def f64_zero)
qed

lemma js_exp_zero: "js_exp 0 = 1"
  by (simp add: js_exp_def f64_one)

lemma simulate_f64_flat_then_crash:
  "simulatePortfolioValues_f64 [0, - 40] 1 = [1, 1, 0]"
proof -
  have "f64 (js_exp (- 40) - 1) = - 1"
    by (rule f64_near_minus_one) (rule js_exp_minus_40)+
  then show ?thesis
    by (simp add: simulatePortfolioValues_f64_def simulateStep_f64_def f64_zero f64_one js_exp_zero)
qed

lemma drawdown_f64_crash:
  "calculateDrawdownSeries_f64 [1, 0] = [Some 0, Some (- 1)]"
  by (simp add: calculateDrawdownSeries_f64_def drawdownStep_f64_def js_div_f64_def
      f64_one f64_zero f64_minus_one)

lemma max_value_ge_one: "1 \<le> MAX_VALUE"
  by (simp add: MAX_VALUE_def)

text \<open>
  C10, as the code has it, in double arithmetic. For every list of log returns and
  every \<open>initialValue > 0\<close> for which nothing overflows (every \<open>Math.exp(r)\<close> and every
  element of the value path is at most \<open>Number.MAX_VALUE\<close>): every element of the value
  path of \<open>simulatePortfolioValues\<close> is \<open>\<ge> 0\<close>; the path starts at \<open>initialValue\<close>; the
  running maximum held by the loop of \<open>calculateDrawdownSeries\<close> on that path is at
  least \<open>initialValue\<close>, hence strictly positive, after any number of iterations, so no
  division has a zero divisor (no entry is \<open>None\<close>); and every drawdown entry lies in
  \<open>[-1, 0]\<close>.
\<close>

theorem simulated_path_f64_nonnegative_drawdown_in_range:
  "0 < initialValue \<Longrightarrow>
   \<forall>r \<in> set rs. js_exp r \<le> MAX_VALUE \<Longrightarrow>
   \<forall>v \<in> set (simulatePortfolioValues_f64 rs initialValue). v \<le> MAX_VALUE \<Longrightarrow>
     (\<forall>v \<in> set (simulatePortfolioValues_f64 rs initialValue). 0 \<le> v) \<and>
     simulatePortfolioValues_f64 rs initialValue ! 0 = initialValue \<and>
     (\<forall>k \<le> length rs + 1.
        initialValue \<le> fst (fold drawdownStep_f64 (take k (simulatePortfolioValues_f64 rs initialValue))
                               (simulatePortfolioValues_f64 rs initialValue ! 0, []))) \<and>
     length (calculateDrawdownSeries_f64 (simulatePortfolioValues_f64 rs initialValue)) = length rs + 1 \<and>
     (\<forall>k < length rs + 1.
        \<exists>d. calculateDrawdownSeries_f64 (simulatePortfolioValues_f64 rs initialValue) ! k = Some d \<and>
            - 1 \<le> d \<and> d \<le> 0)"
proof -
  assume i: "0 < initialValue"
  define vs where "vs = simulatePortfolioValues_f64 rs initialValue"
  have f: "(\<forall>v \<in> set vs. 0 \<le> v) \<and> length vs = length [initialValue] + length rs \<and>
           vs ! 0 = [initialValue] ! 0"
    unfolding vs_def simulatePortfolioValues_f64_def
    by (rule simulate_f64_fold) (use i in simp_all)
  then have nn: "\<forall>v \<in> set vs. 0 \<le> v" and len: "length vs = length rs + 1"
    and hd: "vs ! 0 = initialValue" by simp_all
  have rm: "\<forall>k \<le> length rs + 1. initialValue \<le> fst (fold drawdownStep_f64 (take k vs) (vs ! 0, []))"
    using running_max_f64_ge_initial [of vs] hd by simp
  have dl: "length (calculateDrawdownSeries_f64 vs) = length rs + 1"
    using len by (simp add: calculateDrawdownSeries_f64_def drawdown_f64_fold)
  have dd: "\<exists>d. calculateDrawdownSeries_f64 vs ! k = Some d \<and> - 1 \<le> d \<and> d \<le> 0"
    if "k < length rs + 1" for k
  proof -
    have "k < length vs" using that len by simp
    then show ?thesis using drawdown_f64_entry [of k vs] hd i nn by simp
  qed
  show ?thesis using nn hd rm dl dd unfolding vs_def by blast
qed

theorem simulated_path_f64_nonnegative_drawdown_in_range_witness:
  "(0::real) < 1 \<and>
   js_exp 0 \<le> MAX_VALUE \<and> js_exp (- 40) \<le> MAX_VALUE \<and>
   simulatePortfolioValues_f64 [0, - 40] 1 ! 0 = 1 \<and>
   0 \<le> simulatePortfolioValues_f64 [0, - 40] 1 ! 1 \<and>
   0 \<le> simulatePortfolioValues_f64 [0, - 40] 1 ! 2 \<and>
   1 \<le> fst (fold drawdownStep_f64 (take 3 (simulatePortfolioValues_f64 [0, - 40] 1))
               (simulatePortfolioValues_f64 [0, - 40] 1 ! 0, [])) \<and>
   length (calculateDrawdownSeries_f64 (simulatePortfolioValues_f64 [0, - 40] 1)) = 3 \<and>
   (\<exists>d. calculateDrawdownSeries_f64 (simulatePortfolioValues_f64 [0, - 40] 1) ! 2 = Some d \<and>
        - 1 \<le> d \<and> d \<le> 0)"
proof -
  let ?vs = "simulatePortfolioValues_f64 [0, - 40] 1"
  have i: "(0::real) < 1" by simp
  have e0: "js_exp 0 \<le> MAX_VALUE" using max_value_ge_one by (simp add: js_exp_zero)
  have "js_exp (- 40) \<le> 1" using js_exp_minus_40(2) by (simp add: field_simps)
  then have e: "js_exp (- 40) \<le> MAX_VALUE" using max_value_ge_one by linarith
  have h1: "\<forall>r \<in> set [0, - 40 :: real]. js_exp r \<le> MAX_VALUE" using e0 e by simp
  have h2: "\<forall>v \<in> set ?vs. v \<le> MAX_VALUE"
    using max_value_ge_one by (simp add: simulate_f64_flat_then_crash)
  note t = simulated_path_f64_nonnegative_drawdown_in_range [OF i h1 h2]
  have len: "length ?vs = 3" by (simp add: simulate_f64_flat_then_crash)
  have hd: "?vs ! 0 = 1" using t by blast
  have nn: "\<forall>v \<in> set ?vs. 0 \<le> v" using t by blast
  have v1: "0 \<le> ?vs ! 1" "0 \<le> ?vs ! 2" using nn len by (simp_all add: all_set_conv_all_nth)
  have r: "\<forall>k \<le> length [0, - 40 :: real] + 1.
      1 \<le> fst (fold drawdownStep_f64 (take k ?vs) (?vs ! 0, []))" using t by blast
  have r3: "1 \<le> fst (fold drawdownStep_f64 (take 3 ?vs) (?vs ! 0, []))"
    using r [rule_format, of 3] by simp
  have l: "length (calculateDrawdownSeries_f64 ?vs) = 3" using t by simp
  have d: "\<forall>k < length [0, - 40 :: real] + 1.
      \<exists>d. calculateDrawdownSeries_f64 ?vs ! k = Some d \<and> - 1 \<le> d \<and> d \<le> 0" using t by blast
  have d2: "\<exists>d. calculateDrawdownSeries_f64 ?vs ! 2 = Some d \<and> - 1 \<le> d \<and> d \<le> 0"
    using d [rule_format, of 2] by simp
  show ?thesis using i e0 e hd v1 r3 l d2 by blast
qed

text \<open>
  C10 as stated fails in double arithmetic: for the single log return \<open>-40\<close> and the
  initial value 1, \<open>Math.exp(-40) - 1\<close> rounds to \<open>-1\<close>, so the pushed value is
  \<open>1 * (1 + (-1)) = 0\<close>, which is not strictly positive, and its drawdown is \<open>-1\<close>,
  which is not in \<open>(-1, 0]\<close>.
\<close>

theorem simulated_path_f64_reaches_zero:
  "simulatePortfolioValues_f64 [- 40] 1 = [1, 0] \<and>
   \<not> 0 < simulatePortfolioValues_f64 [- 40] 1 ! 1 \<and>
   calculateDrawdownSeries_f64 (simulatePortfolioValues_f64 [- 40] 1) = [Some 0, Some (- 1)]"
  by (simp add: simulate_f64_crash drawdown_f64_crash)


subsection \<open>Covariance matrix\<close>

lemma fold_add_sum_list: "fold (\<lambda>v acc. acc + v) xs (a::real) = a + sum_list xs"
  by (induction xs arbitrary: a) simp_all

lemma fold_add_upt: "fold (\<lambda>i acc. acc + h i) [0..<n] (a::real) = a + (\<Sum>k<n. h k)"
  by (induction n) simp_all

lemma mean_spec_mean: "xs \<noteq> [] \<Longrightarrow> mean xs = spec_mean xs"
  by (simp add: mean_def spec_mean_def fold_add_sum_list)

lemma covariance_spec:
  "covariance r1 r2 =
     (let m = min (length r1) (length r2) in
      if m < 2 then 0 else spec_sampleCovariance (take m r1) (take m r2))"
proof (cases "min (length r1) (length r2) < 2")
  case True
  then show ?thesis by (simp add: covariance_def Let_def)
next
  case False
  define m where "m = min (length r1) (length r2)"
  have m: "2 \<le> m" "m \<le> length r1" "m \<le> length r2" using False unfolding m_def by linarith+
  have l1: "length (take m r1) = m" and l2: "length (take m r2) = m" using m by simp_all
  have ne: "take m r1 \<noteq> []" "take m r2 \<noteq> []" using m by auto
  have s: "(\<Sum>k<m. (r1 ! k - spec_mean (take m r1)) * (r2 ! k - spec_mean (take m r2)))
         = (\<Sum>k<m. (take m r1 ! k - spec_mean (take m r1)) * (take m r2 ! k - spec_mean (take m r2)))"
    by (rule sum.cong) simp_all
  have d: "real (m - 1) = real m - 1" using m by simp
  have "covariance r1 r2 =
      (\<Sum>k<m. (r1 ! k - spec_mean (take m r1)) * (r2 ! k - spec_mean (take m r2))) / real (m - 1)"
    using False ne by (simp add: covariance_def Let_def m_def [symmetric] mean_spec_mean fold_add_upt)
  also have "\<dots> = spec_sampleCovariance (take m r1) (take m r2)"
    unfolding spec_sampleCovariance_def l1 s d ..
  finally show ?thesis using False by (simp add: Let_def m_def)
qed

lemma covariance_commute: "covariance r1 r2 = covariance r2 r1"
proof -
  have "fold (\<lambda>i acc. acc + (r1 ! i - a) * (r2 ! i - b)) [0..<n] 0
      = fold (\<lambda>i acc. acc + (r2 ! i - b) * (r1 ! i - a)) [0..<n] (0::real)" for a b n
    by (simp add: mult.commute)
  then show ?thesis by (simp add: covariance_def Let_def min.commute)
qed

lemma fold_row_update:
  "k \<le> length row \<Longrightarrow>
   fold (\<lambda>j r. r[j := g j]) [0..<k] row = map g [0..<k] @ drop k row"
proof (induction k)
  case 0
  then show ?case by simp
next
  case (Suc k)
  then have k: "k < length row" by simp
  have "fold (\<lambda>j r. r[j := g j]) [0..<Suc k] row = (map g [0..<k] @ drop k row)[k := g k]"
    using Suc by simp
  also have "\<dots> = map g [0..<k] @ (drop k row)[0 := g k]"
    by (simp add: list_update_append)
  also have "(drop k row)[0 := g k] = g k # drop (Suc k) row"
    using k by (simp add: Cons_nth_drop_Suc [symmetric])
  finally show ?case by simp
qed

lemma fold_cell_update:
  "i < length M \<Longrightarrow>
   fold (\<lambda>j m. m[i := (m ! i)[j := g j]]) js M = M[i := fold (\<lambda>j r. r[j := g j]) js (M ! i)]"
  by (induction js arbitrary: M) simp_all

lemma fold_matrix_rows:
  assumes "k \<le> length M" "\<forall>r \<in> set M. length r = n"
  shows "fold (\<lambda>i matrixI. fold (\<lambda>j m. m[i := (m ! i)[j := f i j]]) [0..<n] matrixI) [0..<k] M
         = map (\<lambda>i. map (f i) [0..<n]) [0..<k] @ drop k M"
  using assms(1)
proof (induction k)
  case 0
  then show ?case by simp
next
  case (Suc k)
  then have k: "k < length M" by simp
  define P where "P = map (\<lambda>i. map (f i) [0..<n]) [0..<k] @ drop k M"
  have lenP: "length P = length M" using k by (simp add: P_def)
  have Pk: "P ! k = M ! k" using k by (simp add: P_def nth_append)
  have row: "length (M ! k) = n" using assms(2) k by simp
  have "fold (\<lambda>i matrixI. fold (\<lambda>j m. m[i := (m ! i)[j := f i j]]) [0..<n] matrixI) [0..<Suc k] M
      = fold (\<lambda>j m. m[k := (m ! k)[j := f k j]]) [0..<n] P"
    using Suc by (simp add: P_def)
  also have "\<dots> = P[k := fold (\<lambda>j r. r[j := f k j]) [0..<n] (P ! k)]"
    using k lenP by (simp add: fold_cell_update)
  also have "\<dots> = P[k := map (f k) [0..<n]]"
    using row by (simp add: Pk fold_row_update)
  also have "\<dots> = map (\<lambda>i. map (f i) [0..<n]) [0..<k] @ (drop k M)[0 := map (f k) [0..<n]]"
    by (simp add: P_def list_update_append)
  also have "(drop k M)[0 := map (f k) [0..<n]] = map (f k) [0..<n] # drop (Suc k) M"
    using k by (simp add: Cons_nth_drop_Suc [symmetric])
  finally show ?case by simp
qed

lemma buildCovarianceMatrix_map:
  "buildCovarianceMatrix returnsMatrix tickers =
     map (\<lambda>i. map (\<lambda>j. covariance (getOrEmpty returnsMatrix (tickers ! i))
                                     (getOrEmpty returnsMatrix (tickers ! j))
                          * TRADING_DAYS_PER_YEAR)
                    [0..<length tickers])
         [0..<length tickers]"
  by (simp add: buildCovarianceMatrix_def Let_def fold_matrix_rows)

text \<open>
  C5. For every returns map and every ticker ordering of length \<open>n\<close>,
  \<open>buildCovarianceMatrix\<close> produces \<open>n\<close> rows of length \<open>n\<close>. Cell \<open>(i, j)\<close> is 252 times the
  sample covariance (Bessel's correction, means over the prefixes) of the leading
  \<open>min(len_i, len_j)\<close> elements of series \<open>i\<close> and series \<open>j\<close>, and 0 when that overlap is
  less than 2, on the diagonal too; a ticker without a series counts as the empty
  series. The matrix is symmetric.
\<close>

theorem buildCovarianceMatrix_cells_symmetric:
  "length (buildCovarianceMatrix rm ts) = length ts \<and>
   (\<forall>i < length ts. length (buildCovarianceMatrix rm ts ! i) = length ts) \<and>
   (\<forall>i < length ts. \<forall>j < length ts.
      buildCovarianceMatrix rm ts ! i ! j =
        (let m = min (length (getOrEmpty rm (ts ! i))) (length (getOrEmpty rm (ts ! j))) in
         if m < 2 then 0
         else 252 * spec_sampleCovariance (take m (getOrEmpty rm (ts ! i)))
                                          (take m (getOrEmpty rm (ts ! j))))
      \<and> buildCovarianceMatrix rm ts ! i ! j = buildCovarianceMatrix rm ts ! j ! i)"
proof -
  have cell: "buildCovarianceMatrix rm ts ! i ! j =
      covariance (getOrEmpty rm (ts ! i)) (getOrEmpty rm (ts ! j)) * 252"
    if "i < length ts" "j < length ts" for i j
    using that by (simp add: buildCovarianceMatrix_map TRADING_DAYS_PER_YEAR_def)
  have sym: "buildCovarianceMatrix rm ts ! i ! j = buildCovarianceMatrix rm ts ! j ! i"
    if "i < length ts" "j < length ts" for i j
    using cell [OF that] cell [OF that(2) that(1)]
      covariance_commute [of "getOrEmpty rm (ts ! i)" "getOrEmpty rm (ts ! j)"] by simp
  have val: "buildCovarianceMatrix rm ts ! i ! j =
        (let m = min (length (getOrEmpty rm (ts ! i))) (length (getOrEmpty rm (ts ! j))) in
         if m < 2 then 0
         else 252 * spec_sampleCovariance (take m (getOrEmpty rm (ts ! i)))
                                          (take m (getOrEmpty rm (ts ! j))))"
    if "i < length ts" "j < length ts" for i j
    unfolding cell [OF that] covariance_spec [of "getOrEmpty rm (ts ! i)" "getOrEmpty rm (ts ! j)"]
    by (simp add: Let_def)
  have len: "length (buildCovarianceMatrix rm ts) = length ts"
    by (simp add: buildCovarianceMatrix_map)
  have rows: "length (buildCovarianceMatrix rm ts ! i) = length ts" if "i < length ts" for i
    using that by (simp add: buildCovarianceMatrix_map)
  show ?thesis using len rows val sym by blast
qed

theorem buildCovarianceMatrix_cells_symmetric_witness:
  "length (buildCovarianceMatrix [''A'' \<mapsto> [1, 2, 4], ''B'' \<mapsto> [1, 3]] [''A'', ''B'', ''C'']) = 3 \<and>
   buildCovarianceMatrix [''A'' \<mapsto> [1, 2, 4], ''B'' \<mapsto> [1, 3]] [''A'', ''B'', ''C''] ! 0 ! 1 = 252 \<and>
   buildCovarianceMatrix [''A'' \<mapsto> [1, 2, 4], ''B'' \<mapsto> [1, 3]] [''A'', ''B'', ''C''] ! 1 ! 0 = 252 \<and>
   buildCovarianceMatrix [''A'' \<mapsto> [1, 2, 4], ''B'' \<mapsto> [1, 3]] [''A'', ''B'', ''C''] ! 2 ! 0 = 0"
proof -
  let ?rm = "[''A'' \<mapsto> [1, 2, 4], ''B'' \<mapsto> [1, 3 :: real]]"
  let ?ts = "[''A'', ''B'', ''C'']"
  let ?M = "buildCovarianceMatrix ?rm ?ts"
  note t = buildCovarianceMatrix_cells_symmetric [of ?rm ?ts]
  have len: "length ?M = 3" using t by simp
  have cells: "\<forall>i < length ?ts. \<forall>j < length ?ts.
      ?M ! i ! j =
        (let m = min (length (getOrEmpty ?rm (?ts ! i))) (length (getOrEmpty ?rm (?ts ! j))) in
         if m < 2 then 0
         else 252 * spec_sampleCovariance (take m (getOrEmpty ?rm (?ts ! i)))
                                          (take m (getOrEmpty ?rm (?ts ! j))))
      \<and> ?M ! i ! j = ?M ! j ! i"
    using t by blast
  have sc: "spec_sampleCovariance [1, 2] [1, 3] = 1"
    by (simp add: spec_sampleCovariance_def spec_mean_def lessThan_Suc numeral_2_eq_2)
  have c01: "?M ! 0 ! 1 = 252"
    using cells [rule_format, of 0 1] sc by (simp add: getOrEmpty_def)
  have c10: "?M ! 1 ! 0 = 252"
    using cells [rule_format, of 0 1] c01 by simp
  have c20: "?M ! 2 ! 0 = 0"
    using cells [rule_format, of 2 0] by (simp add: getOrEmpty_def)
  show ?thesis using len c01 c10 c20 by blast
qed

subsection \<open>Portfolio daily returns\<close>

lemma minLength_fold:
  "fold (minLengthStep rm) ts a
   = (if seriesLengths rm ts = [] then a else min a (enat (Min (set (seriesLengths rm ts)))))"
proof (induction ts arbitrary: a)
  case Nil
  then show ?case by (simp add: seriesLengths_def map_filter_simps)
next
  case (Cons t ts)
  show ?case
  proof (cases "rm t")
    case None
    then show ?thesis using Cons.IH by (simp add: seriesLengths_def map_filter_simps minLengthStep_def)
  next
    case (Some rs)
    then have sl: "seriesLengths rm (t # ts) = length rs # seriesLengths rm ts"
      by (simp add: seriesLengths_def map_filter_simps)
    show ?thesis
    proof (cases "seriesLengths rm ts = []")
      case True
      then show ?thesis using Some Cons.IH sl by (simp add: minLengthStep_def)
    next
      case False
      then have "Min (set (seriesLengths rm (t # ts))) = min (length rs) (Min (set (seriesLengths rm ts)))"
        unfolding sl by simp
      then show ?thesis using Some Cons.IH False sl
        by (simp add: minLengthStep_def min.assoc del: Min_insert set_simps flip: min_enat_simps)
    qed
  qed
qed

lemma minLengthLoop_eq:
  "minLengthLoop rm ts =
     (if seriesLengths rm ts = [] then \<infinity> else enat (Min (set (seriesLengths rm ts))))"
  by (simp add: minLengthLoop_def minLength_fold)

lemma dailyReturn_fold:
  "fold (dailyReturnStep rm w i) ts a
   = a + (\<Sum>t\<leftarrow>ts. weightOrZero w t * returnOrZero rm t i)"
  by (induction ts arbitrary: a)
     (simp_all add: dailyReturnStep_def Let_def weightOrZero_def returnOrZero_def split: option.splits)

lemma dailyReturnLoop_eq:
  "dailyReturnLoop rm w ts i = (\<Sum>t\<leftarrow>ts. weightOrZero w t * returnOrZero rm t i)"
  by (simp add: dailyReturnLoop_def dailyReturn_fold)

lemma fold_push_map: "fold (\<lambda>i acc. acc @ [f i]) xs acc = acc @ map f xs"
  by (induction xs arbitrary: acc) simp_all

lemma calculatePortfolioDailyReturns_eq:
  "calculatePortfolioDailyReturns rm w ts =
     map (\<lambda>i. \<Sum>t\<leftarrow>ts. weightOrZero w t * returnOrZero rm t i)
         [0..<(if seriesLengths rm ts = [] then 0 else Min (set (seriesLengths rm ts)))]"
  by (simp add: calculatePortfolioDailyReturns_def Let_def minLengthLoop_eq fold_push_map
      dailyReturnLoop_eq zero_enat_def)

text \<open>
  C1, as the code has it. \<open>calculatePortfolioDailyReturns\<close> returns a list whose length
  is the minimum length over the series of the listed tickers that have one (0 when no
  listed ticker has a series; a ticker without a series does not shorten the output),
  and whose entry at each index \<open>i\<close> is the sum over the ticker list of
  \<open>weight[t] \<times> return[t][i]\<close>, a ticker without a weight, without a series or without
  index \<open>i\<close> contributing 0.
\<close>

theorem calculatePortfolioDailyReturns_weighted_sum:
  "length (calculatePortfolioDailyReturns rm w ts) =
     (if seriesLengths rm ts = [] then 0 else Min (set (seriesLengths rm ts))) \<and>
   (\<forall>i < length (calculatePortfolioDailyReturns rm w ts).
      calculatePortfolioDailyReturns rm w ts ! i =
        (\<Sum>t\<leftarrow>ts. weightOrZero w t * returnOrZero rm t i))"
  by (simp add: calculatePortfolioDailyReturns_eq)

theorem calculatePortfolioDailyReturns_weighted_sum_witness:
  "length (calculatePortfolioDailyReturns [''A'' \<mapsto> [1, 2, 3], ''B'' \<mapsto> [10, 20]]
             [''A'' \<mapsto> 1 / 2, ''B'' \<mapsto> 1 / 4] [''A'', ''B'', ''C'']) = 2 \<and>
   calculatePortfolioDailyReturns [''A'' \<mapsto> [1, 2, 3], ''B'' \<mapsto> [10, 20]]
             [''A'' \<mapsto> 1 / 2, ''B'' \<mapsto> 1 / 4] [''A'', ''B'', ''C''] ! 1 = 6"
proof -
  let ?rm = "[''A'' \<mapsto> [1, 2, 3], ''B'' \<mapsto> [10, 20 :: real]]"
  let ?w = "[''A'' \<mapsto> 1 / 2, ''B'' \<mapsto> 1 / 4 :: real]"
  let ?ts = "[''A'', ''B'', ''C'']"
  note t = calculatePortfolioDailyReturns_weighted_sum [of ?rm ?w ?ts]
  have sl: "seriesLengths ?rm ?ts = [3, 2]"
    by (simp add: seriesLengths_def map_filter_simps)
  have len: "length (calculatePortfolioDailyReturns ?rm ?w ?ts) = 2"
    using t sl by simp
  have "calculatePortfolioDailyReturns ?rm ?w ?ts ! 1 =
        (\<Sum>t\<leftarrow>?ts. weightOrZero ?w t * returnOrZero ?rm t 1)"
    using t len by simp
  then have v: "calculatePortfolioDailyReturns ?rm ?w ?ts ! 1 = 6"
    by (simp add: weightOrZero_def returnOrZero_def)
  show ?thesis using len v by blast
qed

text \<open>
  C1 as stated fails where it says the output is empty as soon as one ticker has no
  series: with a one-element series for \<open>A\<close> and none for \<open>B\<close>, the output has one
  element.
\<close>

theorem calculatePortfolioDailyReturns_missing_series_nonempty:
  "[''A'' \<mapsto> [1 / 100 :: real]] ''B'' = None \<and>
   calculatePortfolioDailyReturns [''A'' \<mapsto> [1 / 100]] [''A'' \<mapsto> 1 / 2, ''B'' \<mapsto> 1 / 2] [''A'', ''B'']
     = [1 / 200] \<and>
   length (calculatePortfolioDailyReturns [''A'' \<mapsto> [1 / 100]] [''A'' \<mapsto> 1 / 2, ''B'' \<mapsto> 1 / 2]
             [''A'', ''B'']) \<noteq> 0"
  by (simp add: calculatePortfolioDailyReturns_def minLengthLoop_def dailyReturnLoop_def
      minLengthStep_def dailyReturnStep_def Let_def zero_enat_def)

subsection \<open>Price alignment\<close>

lemma buildDateMap_fold_dom:
  "dom (fold dateMapStep hist m) = dom m \<union> date ` set hist"
  by (induction hist arbitrary: m) (auto simp: dateMapStep_def)

lemma dom_buildDateMap: "dom (buildDateMap hist) = date ` set hist"
  by (simp add: buildDateMap_def buildDateMap_fold_dom)

lemma buildDateMaps_snoc:
  "buildDateMaps (pm @ [e]) = (buildDateMaps pm)(fst e \<mapsto> buildDateMap (snd e))"
  by (simp add: buildDateMaps_def dateMapsStep_def)

lemma buildDateMaps_dom: "dom (buildDateMaps pm) = fst ` set pm"
proof (induction pm rule: rev_induct)
  case Nil
  then show ?case by (simp add: buildDateMaps_def)
next
  case (snoc x pm)
  have "dom (buildDateMaps (pm @ [x])) = insert (fst x) (dom (buildDateMaps pm))"
    unfolding buildDateMaps_snoc by simp
  then show ?case using snoc by simp
qed

lemma buildDateMaps_entry:
  "distinct (map fst pm) \<Longrightarrow> e \<in> set pm \<Longrightarrow>
   buildDateMaps pm (fst e) = Some (buildDateMap (snd e))"
proof (induction pm rule: rev_induct)
  case Nil
  then show ?case by simp
next
  case (snoc x pm)
  show ?case
  proof (cases "e = x")
    case True
    then show ?thesis by (simp add: buildDateMaps_snoc)
  next
    case False
    then have e: "e \<in> set pm" using snoc.prems(2) by simp
    then have "fst e \<noteq> fst x" using snoc.prems(1) by (auto simp: image_iff)
    then show ?thesis using snoc.IH e snoc.prems(1) by (simp add: buildDateMaps_snoc)
  qed
qed

lemma allHave_iff:
  assumes "distinct (map fst pm)"
  shows "allHave (buildDateMaps pm) (map fst pm) d = (\<forall>e \<in> set pm. d \<in> date ` set (snd e))"
proof -
  have "(case buildDateMaps pm (fst e) of None \<Rightarrow> False | Some dateMap \<Rightarrow> dateMap d \<noteq> None)
        = (d \<in> date ` set (snd e))" if "e \<in> set pm" for e
  proof -
    have "(buildDateMap (snd e) d \<noteq> None) = (d \<in> dom (buildDateMap (snd e)))" by auto
    then show ?thesis
      using buildDateMaps_entry [OF assms that] by (simp add: dom_buildDateMap)
  qed
  then show ?thesis by (simp add: allHave_def list_all_iff)
qed

lemma commonDates_fold:
  "fold (commonDatesStep dateMaps tickers) xs acc
     = acc @ filter (allHave dateMaps tickers) (map date xs)"
  by (induction xs arbitrary: acc) (simp_all add: commonDatesStep_def)

lemma commonDatesLoop_filter:
  "commonDatesLoop dateMaps tickers firstData =
     filter (allHave dateMaps tickers) (map date firstData)"
  by (simp add: commonDatesLoop_def commonDates_fold)

lemma alignedLoop_fold:
  "\<forall>t \<in> set ts. dateMaps t \<noteq> None \<Longrightarrow>
   fold (alignedStep dateMaps commonDates) ts (Some acc)
   = Some (acc @ map (\<lambda>t. (t, map (the (dateMaps t)) commonDates)) ts)"
  by (induction ts arbitrary: acc) (auto simp: alignedStep_def)

lemma alignedLoop_eq:
  "\<forall>t \<in> set ts. dateMaps t \<noteq> None \<Longrightarrow>
   alignedLoop dateMaps ts commonDates
     = Some (map (\<lambda>t. (t, map (the (dateMaps t)) commonDates)) ts)"
  by (simp add: alignedLoop_def alignedLoop_fold)

lemma firstData_eq:
  "pm \<noteq> [] \<Longrightarrow> firstDataOf pm (map fst pm ! 0) = snd (hd pm)"
  by (cases pm) (auto simp: firstDataOf_def)

lemma spec_commonDates_dateStructure:
  "pm \<noteq> [] \<Longrightarrow>
   spec_commonDates (dateStructure pm)
     = sort (filter (\<lambda>d. \<forall>e \<in> set pm. d \<in> date ` set (snd e)) (map date (snd (hd pm))))"
  by (simp add: spec_commonDates_def dateStructure_def list_all_iff hd_map)

lemma set_spec_commonDates:
  assumes "pm \<noteq> []"
  shows "set (spec_commonDates (dateStructure pm)) = (\<Inter>e \<in> set pm. date ` set (snd e))"
proof -
  have "hd pm \<in> set pm" using assms by simp
  then show ?thesis unfolding spec_commonDates_dateStructure [OF assms] by auto
qed

lemma alignPriceData_eq:
  assumes "distinct (map fst pm)" "pm \<noteq> []"
  shows "alignPriceData pm =
     Some \<lparr> dates = spec_commonDates (dateStructure pm),
            alignedPrices =
              map (\<lambda>t. (t, map (the (buildDateMaps pm t)) (spec_commonDates (dateStructure pm))))
                  (map fst pm) \<rparr>"
proof -
  have dm: "\<forall>t \<in> set (map fst pm). buildDateMaps pm t \<noteq> None"
    using buildDateMaps_dom [of pm] by (auto simp: dom_def)
  have ah: "allHave (buildDateMaps pm) (map fst pm) = (\<lambda>d. \<forall>e \<in> set pm. d \<in> date ` set (snd e))"
    using allHave_iff [OF assms(1)] by (simp add: fun_eq_iff)
  have cd: "sort (commonDatesLoop (buildDateMaps pm) (map fst pm) (firstDataOf pm (map fst pm ! 0)))
            = spec_commonDates (dateStructure pm)"
    unfolding commonDatesLoop_filter ah firstData_eq [OF assms(2)]
      spec_commonDates_dateStructure [OF assms(2)] ..
  have "alignPriceData pm =
      map_option (\<lambda>aligned. \<lparr> dates = spec_commonDates (dateStructure pm), alignedPrices = aligned \<rparr>)
                 (alignedLoop (buildDateMaps pm) (map fst pm) (spec_commonDates (dateStructure pm)))"
    using assms(2) unfolding alignPriceData_def Let_def cd by simp
  then show ?thesis unfolding alignedLoop_eq [OF dm] by simp
qed

lemma aligned_defined:
  assumes "distinct (map fst pm)" "e \<in> set pm" "d \<in> set (spec_commonDates (dateStructure pm))"
  shows "the (buildDateMaps pm (fst e)) d \<noteq> None"
proof -
  have "pm \<noteq> []" using assms(2) by auto
  then have "d \<in> date ` set (snd e)" using set_spec_commonDates assms(2,3) by auto
  then have "d \<in> dom (buildDateMap (snd e))" by (simp add: dom_buildDateMap)
  then show ?thesis using buildDateMaps_entry [OF assms(1,2)] by auto
qed

lemma sorted_spec_commonDates: "sorted (spec_commonDates ds)"
  by (simp add: spec_commonDates_def)

text \<open>
  C8. For every input map (each ticker once), \<open>alignPriceData\<close> returns; its date list
  is sorted ascending; the aligned prices keep the input's tickers, and every ticker's
  price array has the length of the date list (and no undefined entry). With no
  tickers the result is empty. The dates are those of \<open>spec_commonDates\<close> on the input
  with its prices erased, so they do not depend on any price, and for a non-empty
  input the set of retained dates is the intersection of the tickers' date sets.
\<close>

theorem alignPriceData_sorted_aligned_intersection:
  "distinct (map fst pm) \<Longrightarrow>
   \<exists>r. alignPriceData pm = Some r \<and>
       sorted (dates r) \<and>
       dates r = spec_commonDates (dateStructure pm) \<and>
       (pm \<noteq> [] \<longrightarrow> set (dates r) = (\<Inter>e \<in> set pm. date ` set (snd e))) \<and>
       (pm = [] \<longrightarrow> dates r = [] \<and> alignedPrices r = []) \<and>
       map fst (alignedPrices r) = map fst pm \<and>
       (\<forall>e \<in> set (alignedPrices r). length (snd e) = length (dates r) \<and> None \<notin> set (snd e))"
proof (cases "pm = []")
  case True
  then show ?thesis
    by (simp add: alignPriceData_def spec_commonDates_def dateStructure_def)
next
  case False
  assume d: "distinct (map fst pm)"
  define r where "r = \<lparr> dates = spec_commonDates (dateStructure pm),
            alignedPrices = map (\<lambda>t. (t, map (the (buildDateMaps pm t)) (spec_commonDates (dateStructure pm)))) (map fst pm) \<rparr>"
  have e: "alignPriceData pm = Some r"
    unfolding r_def by (rule alignPriceData_eq [OF d False])
  have s: "sorted (dates r)" by (simp add: r_def sorted_spec_commonDates)
  have c: "dates r = spec_commonDates (dateStructure pm)"
    by (simp add: r_def)
  have i: "set (dates r) = (\<Inter>e \<in> set pm. date ` set (snd e))"
    using set_spec_commonDates [OF False] by (simp add: r_def)
  have k: "map fst (alignedPrices r) = map fst pm" by (simp add: r_def comp_def)
  have l: "length (snd a) = length (dates r) \<and> None \<notin> set (snd a)"
    if mem: "a \<in> set (alignedPrices r)" for a
  proof -
    obtain e where e: "e \<in> set pm" "a = (fst e, map (the (buildDateMaps pm (fst e))) (spec_commonDates (dateStructure pm)))"
      using mem by (auto simp: r_def)
    have "None \<notin> set (map (the (buildDateMaps pm (fst e))) (spec_commonDates (dateStructure pm)))"
      using aligned_defined [OF d e(1)] by (fastforce simp: image_iff)
    then show ?thesis using e(2) by (simp add: r_def)
  qed
  show ?thesis using e s c i k l False by blast
qed

theorem alignPriceData_sorted_aligned_intersection_witness:
  "distinct (map fst [(''A'', [\<lparr>date = 3, adjClose = 1\<rparr>, \<lparr>date = 1, adjClose = 2\<rparr>,
                                \<lparr>date = 2, adjClose = 5\<rparr>]),
                       (''B'', [\<lparr>date = 1, adjClose = 7\<rparr>, \<lparr>date = 3, adjClose = 8\<rparr>])]) \<and>
   (\<exists>r. alignPriceData [(''A'', [\<lparr>date = 3, adjClose = 1\<rparr>, \<lparr>date = 1, adjClose = 2\<rparr>,
                                \<lparr>date = 2, adjClose = 5\<rparr>]),
                       (''B'', [\<lparr>date = 1, adjClose = 7\<rparr>, \<lparr>date = 3, adjClose = 8\<rparr>])] = Some r \<and>
        dates r = [1, 3] \<and> map fst (alignedPrices r) = [''A'', ''B'']) \<and>
   (\<exists>r. alignPriceData [] = Some r \<and> dates r = [] \<and> alignedPrices r = [])"
proof -
  let ?pm = "[(''A'', [\<lparr>date = 3, adjClose = 1\<rparr>, \<lparr>date = 1, adjClose = 2\<rparr>,
                       \<lparr>date = 2, adjClose = 5\<rparr>]),
              (''B'', [\<lparr>date = 1, adjClose = 7\<rparr>, \<lparr>date = 3, adjClose = 8\<rparr>])]"
  have d: "distinct (map fst ?pm)" by simp
  have sc: "spec_commonDates (dateStructure ?pm) = [1, 3]"
    by (simp add: spec_commonDates_def dateStructure_def)
  from alignPriceData_sorted_aligned_intersection [OF d] obtain r where r: "alignPriceData ?pm = Some r"
      "dates r = spec_commonDates (dateStructure ?pm)" "map fst (alignedPrices r) = map fst ?pm"
    by blast
  have a: "\<exists>r. alignPriceData ?pm = Some r \<and> dates r = [1, 3] \<and>
      map fst (alignedPrices r) = [''A'', ''B'']"
    using r sc by simp
  have d0: "distinct (map fst ([] :: (string \<times> HistoricalData list) list))" by simp
  from alignPriceData_sorted_aligned_intersection [OF d0] have b: "\<exists>r. alignPriceData [] = Some r \<and> dates r = [] \<and> alignedPrices r = []"
    by blast
  show ?thesis using d a b by blast
qed

end
